theory Spec2Isabelle
  imports Complex_Main "HOL-Library.Word" "HOL-Library.Multiset"
begin

section \<open>Data model\<close>

text \<open>
  The effects engine of \<^verbatim>\<open>src/src/App.jsx\<close> works on the \<^verbatim>\<open>data\<close> array of a canvas
  \<^verbatim>\<open>ImageData\<close>: a \<^verbatim>\<open>Uint8ClampedArray\<close> of \<open>4 * currentW * currentH\<close> bytes, four
  consecutive bytes (red, green, blue, alpha) per pixel. The embedding keeps one list
  element per pixel: element \<open>i\<close> of the list stands for the bytes \<open>4 * i\<close> to
  \<open>4 * i + 3\<close> of the array, so the source's \<^verbatim>\<open>data[(y*currentW+x)*4 + c]\<close> is channel
  \<open>c\<close> of element \<open>y * currentW + x\<close>.

  JavaScript numbers are modelled by the reals: arithmetic is exact, where the source
  computes in IEEE doubles (and stores luminances in a \<^verbatim>\<open>Float32Array\<close>). The places where
  a double would be infinite or NaN are written out in the definitions concerned.
\<close>

type_synonym byte = "8 word"

record rgba =
  red :: byte
  green :: byte
  blue :: byte
  alpha :: byte

text \<open>The settings object of the component state (\<^verbatim>\<open>useState({...})\<close>, lines 59-108).\<close>

record settings =
  pixelSize :: int
  ditherAlgo :: string
  ditherType :: string
  ditherThreshold :: int
  ditherPixelSize :: int
  colorA :: string
  colorB :: string
  contrast :: int
  brightness :: int
  grain :: int
  offset :: int
  direction :: string
  scanlineIntensity :: int
  scanlineThickness :: int
  vignette :: int
  dotSize :: int
  invertHalftone :: bool
  sortThreshold :: int
  sortDirection :: string
  edgeThreshold :: int
  edgeColor :: string
  edgeMode :: string
  outlineContrast :: int
  outlineLevels :: int
  outlineThickness :: int
  outlineBg :: string
  outlineColor :: string
  outlineOffsetCount :: int
  outlineOffsetX :: int
  outlineOffsetY :: int
  outlineOffsetColor :: string

text \<open>The initial settings of the source (lines 59-108).\<close>

definition defaultSettings :: settings where
  "defaultSettings = \<lparr>
     pixelSize = 4,
     ditherAlgo = ''floyd'', ditherType = ''bw'', ditherThreshold = 128, ditherPixelSize = 2,
     colorA = ''#000000'', colorB = ''#ffffff'',
     contrast = 20, brightness = 10, grain = 0,
     offset = 5, direction = ''horizontal'',
     scanlineIntensity = 50, scanlineThickness = 2, vignette = 50,
     dotSize = 8, invertHalftone = False,
     sortThreshold = 50, sortDirection = ''horizontal'',
     edgeThreshold = 30, edgeColor = ''#00ff00'', edgeMode = ''color'',
     outlineContrast = 50, outlineLevels = 3, outlineThickness = 2,
     outlineBg = ''#1a1a1a'', outlineColor = ''#ffffff'',
     outlineOffsetCount = 0, outlineOffsetX = 10, outlineOffsetY = 10,
     outlineOffsetColor = ''#ff0055'' \<rparr>"

text \<open>The pixel at column \<open>x\<close>, row \<open>y\<close> of a buffer of width \<open>currentW\<close>.\<close>

definition pixelAt :: "nat \<Rightarrow> rgba list \<Rightarrow> nat \<Rightarrow> nat \<Rightarrow> rgba" where
  "pixelAt currentW data x y = data ! (y * currentW + x)"

text \<open>\<^verbatim>\<open>const getLuminance = (r, g, b) => 0.2126 * r + 0.7152 * g + 0.0722 * b\<close> (line 19).\<close>

definition getLuminance :: "real \<Rightarrow> real \<Rightarrow> real \<Rightarrow> real" where
  "getLuminance r g b = 0.2126 * r + 0.7152 * g + 0.0722 * b"

text \<open>Reading a channel of a \<^verbatim>\<open>Uint8ClampedArray\<close> gives the number it holds.\<close>

definition num :: "byte \<Rightarrow> real" where
  "num v = real (unat v)"

definition lum :: "rgba \<Rightarrow> real" where
  "lum p = getLuminance (num (red p)) (num (green p)) (num (blue p))"

text \<open>
  Storing a number in a \<^verbatim>\<open>Uint8ClampedArray\<close> clamps it to \<open>[0, 255]\<close> and rounds it to the
  nearest integer, a tie going to the even neighbour (the ToUint8Clamp conversion of
  ECMAScript).
\<close>

definition roundHalfEven :: "real \<Rightarrow> int" where
  "roundHalfEven v =
     (let f = \<lfloor>v\<rfloor> in
      if v - of_int f < 1 / 2 then f
      else if v - of_int f > 1 / 2 then f + 1
      else if even f then f else f + 1)"

definition toUint8Clamp :: "real \<Rightarrow> byte" where
  "toUint8Clamp v =
     (if v \<le> 0 then 0 else if v \<ge> 255 then 255 else of_nat (nat (roundHalfEven v)))"

text \<open>
  What a stage can throw: a \<^verbatim>\<open>TypeError\<close> when it reads a property of \<^verbatim>\<open>null\<close>, an
  \<^verbatim>\<open>InvalidStateError\<close> when it draws from a canvas of width or height 0. A throw ends
  the whole run of the pipeline.
\<close>

datatype error = TypeError | InvalidStateError

text \<open>A list is walked with a body that may throw; the first throw ends the walk.\<close>

fun forEachE :: "'a list \<Rightarrow> ('a \<Rightarrow> 's \<Rightarrow> error + 's) \<Rightarrow> 's \<Rightarrow> error + 's" where
  "forEachE [] body st = Inr st"
| "forEachE (x # xs) body st =
     (case body x st of Inl e \<Rightarrow> Inl e | Inr st' \<Rightarrow> forEachE xs body st')"

section \<open>Colour utilities (lines 9-37)\<close>

record color =
  cr :: nat
  cg :: nat
  cb :: nat

definition isHexDigit :: "char \<Rightarrow> bool" where
  "isHexDigit c = (c \<in> set ''0123456789abcdefABCDEF'')"

definition hexDigitVal :: "char \<Rightarrow> nat" where
  "hexDigitVal c =
     (if c \<in> set ''0123456789'' then of_char c - 48
      else if c \<in> set ''abcdef'' then of_char c - 87
      else of_char c - 55)"

text \<open>\<^verbatim>\<open>parseInt(s, 16)\<close> on the two hexadecimal digits of a capture group.\<close>

definition parseHex2 :: "char \<Rightarrow> char \<Rightarrow> nat" where
  "parseHex2 c1 c2 = 16 * hexDigitVal c1 + hexDigitVal c2"

text \<open>
  \<^verbatim>\<open>hexToRgb\<close> (lines 9-16): the string matches
  \<^verbatim>\<open>/^#?([a-f\d]{2})([a-f\d]{2})([a-f\d]{2})$/i\<close>, or the result is \<^verbatim>\<open>null\<close>.
\<close>

definition hexToRgb :: "string \<Rightarrow> color option" where
  "hexToRgb hex =
     (let digits = (case hex of c # rest \<Rightarrow> if c = CHR ''#'' then rest else hex | [] \<Rightarrow> hex) in
      case digits of
        [r1, r2, g1, g2, b1, b2] \<Rightarrow>
          if list_all isHexDigit digits
          then Some \<lparr>cr = parseHex2 r1 r2, cg = parseHex2 g1 g2, cb = parseHex2 b1 b2\<rparr>
          else None
      | _ \<Rightarrow> None)"

definition bayerMatrix4x4 :: "int list list" where
  "bayerMatrix4x4 =
     [[0, 8, 2, 10],
      [12, 4, 14, 6],
      [3, 11, 1, 9],
      [15, 7, 13, 5]]"

definition vibrantColors :: "color list" where
  "vibrantColors =
     [\<lparr>cr = 255, cg = 0, cb = 100\<rparr>,
      \<lparr>cr = 0, cg = 255, cb = 200\<rparr>,
      \<lparr>cr = 255, cg = 200, cb = 0\<rparr>,
      \<lparr>cr = 100, cg = 100, cb = 255\<rparr>,
      \<lparr>cr = 50, cg = 255, cb = 50\<rparr>,
      \<lparr>cr = 255, cg = 100, cb = 0\<rparr>]"

section \<open>Chromatic shift (lines 505-523)\<close>

text \<open>
  \<^verbatim>\<open>ctx.createImageData\<close> gives a buffer of transparent black pixels; the loop then
  writes every pixel of it.
\<close>

definition transparentBlack :: rgba where
  "transparentBlack = \<lparr>red = 0, green = 0, blue = 0, alpha = 0\<rparr>"

definition chromaticPixel :: "settings \<Rightarrow> nat \<Rightarrow> nat \<Rightarrow> rgba list \<Rightarrow> nat \<Rightarrow> nat \<Rightarrow> rgba" where
  "chromaticPixel s currentW currentH data x y =
     (let off = offset s;
          i = y * currentW + x;
          vertical = (direction s = ''vertical'');
          rx = (if vertical then int x else int x + off);
          ry = (if vertical then int y + off else int y);
          bx = (if vertical then int x else int x - off);
          by = (if vertical then int y - off else int y);
          rx = min (int currentW - 1) (max 0 rx);
          ry = min (int currentH - 1) (max 0 ry);
          bx = min (int currentW - 1) (max 0 bx);
          by = min (int currentH - 1) (max 0 by);
          ri = nat (ry * int currentW + rx);
          bi = nat (by * int currentW + bx)
      in \<lparr>red = red (data ! ri), green = green (data ! i), blue = blue (data ! bi),
          alpha = 255\<rparr>)"

definition chromaticStage :: "settings \<Rightarrow> nat \<Rightarrow> nat \<Rightarrow> rgba list \<Rightarrow> rgba list" where
  "chromaticStage s currentW currentH data =
     fold (\<lambda>y. fold (\<lambda>x tData. tData[y * currentW + x := chromaticPixel s currentW currentH data x y])
                  [0..<currentW])
          [0..<currentH] (replicate (currentW * currentH) transparentBlack)"

text \<open>The clamped sampling coordinate \<^verbatim>\<open>Math.min(n-1, Math.max(0, c))\<close>.\<close>

definition clampCoord :: "nat \<Rightarrow> int \<Rightarrow> nat" where
  "clampCoord n c = nat (min (int n - 1) (max 0 c))"


section \<open>Tone adjustment: the stage \<^verbatim>\<open>bw\<close> (lines 246-258)\<close>

text \<open>
  \<open>rnd\<close> is the value \<^verbatim>\<open>Math.random()\<close> returns for the pixel; it is drawn only when
  \<^verbatim>\<open>settings.grain > 0\<close>. At \<^verbatim>\<open>settings.contrast = 259\<close> the source divides by zero: the
  contrast factor is \<open>+Infinity\<close>, the gray value becomes \<open>+Infinity\<close>, \<open>-Infinity\<close> or NaN
  (at exactly 128), and the byte stored is 255, 0 and 0.
\<close>

definition contrastFactorOf :: "int \<Rightarrow> real" where
  "contrastFactorOf c = (259 * (real_of_int c + 255)) / (255 * (259 - real_of_int c))"

definition bwGray :: "settings \<Rightarrow> real \<Rightarrow> rgba \<Rightarrow> real" where
  "bwGray s rnd p =
     (let gray = getLuminance (num (red p)) (num (green p)) (num (blue p));
          gray = gray + real_of_int (brightness s)
      in if contrast s = 259 then (if gray > 128 then 255 else 0)
         else
           (let contrastFactor = contrastFactorOf (contrast s);
                gray = contrastFactor * (gray - 128) + 128;
                gray = (if grain s > 0 then gray + (rnd - 0.5) * real_of_int (grain s) else gray);
                gray = min 255 (max 0 gray)
            in gray))"

definition bwPixel :: "settings \<Rightarrow> real \<Rightarrow> rgba \<Rightarrow> rgba" where
  "bwPixel s rnd p =
     (let gray = toUint8Clamp (bwGray s rnd p) in p\<lparr>red := gray, green := gray, blue := gray\<rparr>)"

definition bwStage :: "settings \<Rightarrow> (nat \<Rightarrow> real) \<Rightarrow> rgba list \<Rightarrow> rgba list" where
  "bwStage s rnd data =
     fold (\<lambda>i data. data[i := bwPixel s (rnd i) (data ! i)]) [0..<length data] data"

section \<open>Pixel sort: the stage \<^verbatim>\<open>sort\<close> (lines 261-316)\<close>

text \<open>
  \<^verbatim>\<open>arr.sort((a, b) => getLuminance(a) - getLuminance(b))\<close>: the sort of the language is
  stable and the comparator orders by luminance, so the result is the stable sort by that
  key.
\<close>

definition sortRow :: "rgba list \<Rightarrow> rgba list" where
  "sortRow arr = sort_key lum arr"

definition slice :: "'a list \<Rightarrow> nat \<Rightarrow> nat \<Rightarrow> 'a list" where
  "slice arr start stop = take (stop - start) (drop start arr)"

text \<open>The inner \<^verbatim>\<open>while\<close> (lines 277 and 302): the end of the run that holds the pixels before \<open>stop\<close> (the source's \<^verbatim>\<open>end\<close>).\<close>

function findEnd :: "real \<Rightarrow> nat \<Rightarrow> rgba list \<Rightarrow> nat \<Rightarrow> nat" where
  "findEnd thresh n pixels stop =
     (if stop < n \<and> lum (pixels ! stop) > thresh then findEnd thresh n pixels (stop + 1)
      else stop)"
  by pat_completeness auto
termination
  by (relation "measure (\<lambda>(thresh, n, pixels, stop). n - stop)") auto

declare findEnd.simps [simp del]

lemma findEnd_step:
  "stop < n \<Longrightarrow> lum (pixels ! stop) > thresh \<Longrightarrow>
     findEnd thresh n pixels stop = findEnd thresh n pixels (stop + 1)"
  by (subst findEnd.simps) simp

lemma findEnd_done:
  "\<not> (stop < n \<and> lum (pixels ! stop) > thresh) \<Longrightarrow> findEnd thresh n pixels stop = stop"
  by (subst findEnd.simps) (rule if_not_P)

lemma findEnd_ge: "stop \<le> findEnd thresh n pixels stop"
proof (induction thresh n pixels stop rule: findEnd.induct)
  case (1 thresh n pixels stop)
  show ?case
  proof (cases "stop < n \<and> lum (pixels ! stop) > thresh")
    case True
    then have "stop + 1 \<le> findEnd thresh n pixels (stop + 1)" using 1 by simp
    then show ?thesis using True findEnd_step[where stop = stop and n = n and pixels = pixels and thresh = thresh] by simp
  next
    case False
    then show ?thesis using findEnd_done[where stop = stop and n = n and pixels = pixels and thresh = thresh] by simp
  qed
qed

text \<open>
  Lines 280 and 305: \<^verbatim>\<open>for (let k = 0; k < span.length; k++) rowPixels[start + k] = span[k]\<close>.
\<close>

definition writeSpan :: "nat \<Rightarrow> rgba list \<Rightarrow> rgba list \<Rightarrow> rgba list" where
  "writeSpan start span' pixels =
     fold (\<lambda>k ps. ps[start + k := span' ! k]) [0..<length span'] pixels"

text \<open>
  The outer \<^verbatim>\<open>while (start < currentW)\<close> of one row or column (lines 272-283 and
  297-308); \<open>n\<close> is the length of the line, \<open>pixels\<close> the array \<^verbatim>\<open>rowPixels\<close> or
  \<^verbatim>\<open>colPixels\<close>.
\<close>

function sortRuns :: "real \<Rightarrow> nat \<Rightarrow> rgba list \<Rightarrow> nat \<Rightarrow> rgba list" where
  "sortRuns thresh n pixels start =
     (if start < n then
        (if lum (pixels ! start) > thresh then
           (let stop = findEnd thresh n pixels (start + 1);
                span = sortRow (slice pixels start stop);
                pixels' = writeSpan start span pixels
            in sortRuns thresh n pixels' stop)
         else sortRuns thresh n pixels (start + 1))
      else pixels)"
  by pat_completeness auto
termination
proof (relation "measure (\<lambda>(thresh, n, pixels, start). n - start)")
  show "wf (measure (\<lambda>(thresh, n, pixels, start). n - start))" by simp
next
  fix thresh :: real and n :: nat and pixels :: "rgba list" and start stop :: nat
    and span pixels' :: "rgba list"
  assume "start < n" and "stop = findEnd thresh n pixels (start + 1)"
  then have "start < stop" using findEnd_ge[of "start + 1" thresh n pixels] by simp
  then show "((thresh, n, pixels', stop), (thresh, n, pixels, start))
               \<in> measure (\<lambda>(thresh, n, pixels, start). n - start)"
    using \<open>start < n\<close> by simp
next
  fix thresh :: real and n :: nat and pixels :: "rgba list" and start :: nat
  assume "start < n"
  then show "((thresh, n, pixels, start + 1), (thresh, n, pixels, start))
               \<in> measure (\<lambda>(thresh, n, pixels, start). n - start)"
    by simp
qed

declare sortRuns.simps [simp del]

text \<open>
  The write-back (lines 284-287 and 309-312) stores the red, green and blue bytes of the
  sorted line; the alpha byte \<^verbatim>\<open>data[i+3]\<close> is not written.
\<close>

definition writeRgb :: "rgba \<Rightarrow> rgba \<Rightarrow> rgba" where
  "writeRgb old px = old\<lparr>red := red px, green := green px, blue := blue px\<rparr>"

definition sortStage :: "settings \<Rightarrow> nat \<Rightarrow> nat \<Rightarrow> rgba list \<Rightarrow> rgba list" where
  "sortStage s currentW currentH data =
     (let thresh = real_of_int (sortThreshold s) in
      if sortDirection s = ''horizontal'' then
        fold (\<lambda>y data.
               (let rowPixels = map (\<lambda>x. data ! (y * currentW + x)) [0..<currentW];
                    rowPixels = sortRuns thresh currentW rowPixels 0
                in fold (\<lambda>x data. data[y * currentW + x :=
                                          writeRgb (data ! (y * currentW + x)) (rowPixels ! x)])
                        [0..<currentW] data))
             [0..<currentH] data
      else
        fold (\<lambda>x data.
               (let colPixels = map (\<lambda>y. data ! (y * currentW + x)) [0..<currentH];
                    colPixels = sortRuns thresh currentH colPixels 0
                in fold (\<lambda>y data. data[y * currentW + x :=
                                          writeRgb (data ! (y * currentW + x)) (colPixels ! y)])
                        [0..<currentH] data))
             [0..<currentW] data)"

section \<open>Dither: the stage \<^verbatim>\<open>dither\<close> (lines 445-502)\<close>

text \<open>\<^verbatim>\<open>grayBuffer[j] += v\<close>.\<close>

definition addAt :: "real list \<Rightarrow> nat \<Rightarrow> real \<Rightarrow> real list" where
  "addAt grayBuffer j v = grayBuffer[j := grayBuffer ! j + v]"

text \<open>The Floyd-Steinberg branch (lines 473-476); \<open>i = y * currentW + x\<close>.\<close>

definition floydDiffuse :: "nat \<Rightarrow> nat \<Rightarrow> nat \<Rightarrow> nat \<Rightarrow> real \<Rightarrow> real list \<Rightarrow> real list" where
  "floydDiffuse currentW currentH x y err grayBuffer =
     (let i = y * currentW + x;
          g = grayBuffer;
          g = (if x + 1 < currentW then addAt g (i + 1) (err * 7 / 16) else g);
          g = (if y + 1 < currentH \<and> 1 \<le> x then addAt g (i + currentW - 1) (err * 3 / 16) else g);
          g = (if y + 1 < currentH then addAt g (i + currentW) (err * 5 / 16) else g);
          g = (if y + 1 < currentH \<and> x + 1 < currentW then addAt g (i + currentW + 1) (err * 1 / 16)
               else g)
      in g)"

text \<open>The Atkinson branch (lines 478-484), with \<^verbatim>\<open>f = 1/8\<close>.\<close>

definition atkinsonDiffuse :: "nat \<Rightarrow> nat \<Rightarrow> nat \<Rightarrow> nat \<Rightarrow> real \<Rightarrow> real list \<Rightarrow> real list" where
  "atkinsonDiffuse currentW currentH x y err grayBuffer =
     (let i = y * currentW + x;
          f = 1 / 8;
          g = grayBuffer;
          g = (if x + 1 < currentW then addAt g (i + 1) (err * f) else g);
          g = (if x + 2 < currentW then addAt g (i + 2) (err * f) else g);
          g = (if 1 \<le> x \<and> y + 1 < currentH then addAt g (i + currentW - 1) (err * f) else g);
          g = (if y + 1 < currentH then addAt g (i + currentW) (err * f) else g);
          g = (if x + 1 < currentW \<and> y + 1 < currentH then addAt g (i + currentW + 1) (err * f)
               else g);
          g = (if y + 2 < currentH then addAt g (i + currentW * 2) (err * f) else g)
      in g)"

text \<open>Line 460: \<^verbatim>\<open>Math.floor((grayBuffer[i] / 255) * 17)\<close>.\<close>

definition bayerLevel :: "real \<Rightarrow> int" where
  "bayerLevel gray = \<lfloor>(gray / 255) * 17\<rfloor>"

text \<open>
  Lines 457-486: whether the pixel is lit, and the luminance buffer after the pixel. The
  last branch is taken by every algorithm name other than \<^verbatim>\<open>bayer\<close> and
  \<^verbatim>\<open>threshold\<close>, and inside it every name other than \<^verbatim>\<open>floyd\<close> is Atkinson.
\<close>

definition ditherDecide ::
  "settings \<Rightarrow> nat \<Rightarrow> nat \<Rightarrow> real \<Rightarrow> nat \<Rightarrow> nat \<Rightarrow> real list \<Rightarrow> bool \<times> real list" where
  "ditherDecide s currentW currentH threshold x y grayBuffer =
     (let i = y * currentW + x in
      if ditherAlgo s = ''bayer'' then
        (let map' = bayerLevel (grayBuffer ! i)
         in (map' > bayerMatrix4x4 ! (y mod 4) ! (x mod 4), grayBuffer))
      else if ditherAlgo s = ''threshold'' then
        (grayBuffer ! i > threshold, grayBuffer)
      else
        (let oldVal = grayBuffer ! i;
             newVal = (if oldVal > threshold then 255 else 0);
             err = oldVal - newVal;
             isLight = (newVal = 255)
         in if ditherAlgo s = ''floyd''
            then (isLight, floydDiffuse currentW currentH x y err grayBuffer)
            else (isLight, atkinsonDiffuse currentW currentH x y err grayBuffer)))"

text \<open>
  Line 490: \<^verbatim>\<open>Math.floor(Math.abs(Math.sin(x * 12.9898 + y * 78.233) * 43758.5453))\<close>.
\<close>

definition coordHash :: "nat \<Rightarrow> nat \<Rightarrow> nat" where
  "coordHash x y = nat \<lfloor>\<bar>sin (real x * 12.9898 + real y * 78.233) * 43758.5453\<bar>\<rfloor>"

definition colorPixel :: "color \<Rightarrow> rgba" where
  "colorPixel c = \<lparr>red = of_nat (cr c), green = of_nat (cg c), blue = of_nat (cb c), alpha = 255\<rparr>"

text \<open>
  Lines 488-498: the colour written for the pixel. \<^verbatim>\<open>t.r\<close> is read only in the last
  branch, where \<^verbatim>\<open>t\<close> is \<^verbatim>\<open>null\<close> when the colour string did not parse.
\<close>

definition ditherColor ::
  "settings \<Rightarrow> color option \<Rightarrow> color option \<Rightarrow> nat \<Rightarrow> nat \<Rightarrow> bool \<Rightarrow> error + rgba" where
  "ditherColor s dark light x y isLight =
     (if ditherType s = ''random'' \<and> isLight then
        (let hash = coordHash x y;
             col = vibrantColors ! (hash mod length vibrantColors)
         in Inr (colorPixel col))
      else
        (let t = (if isLight then light else dark) in
         if ditherType s = ''bw'' then
           (let v = (if isLight then 255 else 0)
            in Inr \<lparr>red = v, green = v, blue = v, alpha = 255\<rparr>)
         else (case t of None \<Rightarrow> Inl TypeError | Some c \<Rightarrow> Inr (colorPixel c))))"

text \<open>The body of the two loops, on the pair of \<^verbatim>\<open>grayBuffer\<close> and \<^verbatim>\<open>data\<close>.\<close>

definition ditherBody ::
  "settings \<Rightarrow> nat \<Rightarrow> nat \<Rightarrow> color option \<Rightarrow> color option \<Rightarrow> real \<Rightarrow> nat \<Rightarrow> nat \<Rightarrow>
     real list \<times> rgba list \<Rightarrow> error + real list \<times> rgba list" where
  "ditherBody s currentW currentH dark light threshold y x st =
     (let (isLight, grayBuffer) = ditherDecide s currentW currentH threshold x y (fst st) in
      case ditherColor s dark light x y isLight of
        Inl e \<Rightarrow> Inl e
      | Inr px \<Rightarrow> Inr (grayBuffer, (snd st)[y * currentW + x := px]))"

definition ditherStage :: "settings \<Rightarrow> nat \<Rightarrow> nat \<Rightarrow> rgba list \<Rightarrow> error + rgba list" where
  "ditherStage s currentW currentH data =
     (let grayBuffer = map (\<lambda>i. lum (data ! i)) [0..<currentW * currentH];
          dark = hexToRgb (colorA s);
          light = hexToRgb (colorB s);
          threshold = real_of_int (ditherThreshold s)
      in case forEachE [0..<currentH]
                (\<lambda>y. forEachE [0..<currentW]
                        (ditherBody s currentW currentH dark light threshold y))
                (grayBuffer, data) of
           Inl e \<Rightarrow> Inl e
         | Inr st \<Rightarrow> Inr (snd st))"

section \<open>CRT overlay: the stage \<^verbatim>\<open>crt\<close> (lines 526-549)\<close>

text \<open>
  \<^verbatim>\<open>(y % thick) === 0\<close>: with \<^verbatim>\<open>thick = 0\<close> the remainder is NaN and the test is false;
  otherwise it holds when \<open>thick\<close> divides \<open>y\<close>.
\<close>

definition crtMult :: "settings \<Rightarrow> nat \<Rightarrow> nat \<Rightarrow> nat \<Rightarrow> nat \<Rightarrow> real" where
  "crtMult s currentW currentH x y =
     (let cx = real currentW / 2;
          cy = real currentH / 2;
          maxD = sqrt (cx * cx + cy * cy);
          vig = real_of_int (vignette s) / 100;
          scanA = real_of_int (scanlineIntensity s) / 100;
          thick = scanlineThickness s;
          isScan = (thick \<noteq> 0 \<and> int y mod thick = 0);
          d = sqrt ((real x - cx)\<^sup>2 + (real y - cy)\<^sup>2);
          dim = 1 - ((d / maxD) * vig)
      in if isScan then dim * (1 - scanA) else dim)"

definition crtPixel :: "real \<Rightarrow> rgba \<Rightarrow> rgba" where
  "crtPixel m p =
     p\<lparr>red := toUint8Clamp (num (red p) * m),
       green := toUint8Clamp (num (green p) * m),
       blue := toUint8Clamp (num (blue p) * m)\<rparr>"

definition crtStage :: "settings \<Rightarrow> nat \<Rightarrow> nat \<Rightarrow> rgba list \<Rightarrow> rgba list" where
  "crtStage s currentW currentH data =
     fold (\<lambda>y. fold (\<lambda>x data. data[y * currentW + x :=
                        crtPixel (crtMult s currentW currentH x y) (data ! (y * currentW + x))])
                  [0..<currentW])
          [0..<currentH] data"

section \<open>Edge detection: the stage \<^verbatim>\<open>edge\<close> (lines 391-416)\<close>

definition getP :: "nat \<Rightarrow> nat \<Rightarrow> byte list \<Rightarrow> int \<Rightarrow> int \<Rightarrow> int" where
  "getP currentW currentH grayscale x y =
     (if x < 0 \<or> x \<ge> int currentW \<or> y < 0 \<or> y \<ge> int currentH then 0
      else int (unat (grayscale ! nat (y * int currentW + x))))"

text \<open>Lines 403-406: the Sobel gradients and \<^verbatim>\<open>Math.sqrt(gx*gx + gy*gy)\<close>.\<close>

definition gradient :: "nat \<Rightarrow> nat \<Rightarrow> byte list \<Rightarrow> nat \<Rightarrow> nat \<Rightarrow> real" where
  "gradient currentW currentH grayscale x' y' =
     (let x = int x'; y = int y';
          P = getP currentW currentH grayscale;
          gx = - 1 * P (x - 1) (y - 1) + P (x + 1) (y - 1) - 2 * P (x - 1) y + 2 * P (x + 1) y
               - P (x - 1) (y + 1) + P (x + 1) (y + 1);
          gy = - 1 * P (x - 1) (y - 1) - 2 * P x (y - 1) - P (x + 1) (y - 1) + P (x - 1) (y + 1)
               + 2 * P x (y + 1) + P (x + 1) (y + 1)
      in sqrt (real_of_int (gx * gx + gy * gy)))"

text \<open>
  Lines 406-412: the pixel written. \<^verbatim>\<open>neon.r\<close> is read only above the threshold in the
  mode \<^verbatim>\<open>color\<close>, where \<^verbatim>\<open>neon\<close> is \<^verbatim>\<open>null\<close> when the colour string did not parse.
\<close>

definition edgePixel ::
  "settings \<Rightarrow> nat \<Rightarrow> nat \<Rightarrow> color option \<Rightarrow> byte list \<Rightarrow> nat \<Rightarrow> nat \<Rightarrow> error + rgba" where
  "edgePixel s currentW currentH neon grayscale x y =
     (if gradient currentW currentH grayscale x y > real_of_int (edgeThreshold s) then
        (if edgeMode s = ''color''
         then (case neon of None \<Rightarrow> Inl TypeError | Some c \<Rightarrow> Inr (colorPixel c))
         else Inr \<lparr>red = 255, green = 255, blue = 255, alpha = 255\<rparr>)
      else Inr \<lparr>red = 0, green = 0, blue = 0, alpha = 255\<rparr>)"

definition edgeStage :: "settings \<Rightarrow> nat \<Rightarrow> nat \<Rightarrow> rgba list \<Rightarrow> error + rgba list" where
  "edgeStage s currentW currentH data =
     (let grayscale = map (\<lambda>i. toUint8Clamp (lum (data ! i))) [0..<currentW * currentH];
          neon = hexToRgb (edgeColor s)
      in forEachE [0..<currentH]
           (\<lambda>y. forEachE [0..<currentW]
                   (\<lambda>x out. case edgePixel s currentW currentH neon grayscale x y of
                                Inl e \<Rightarrow> Inl e
                              | Inr px \<Rightarrow> Inr (out[y * currentW + x := px])))
           (replicate (currentW * currentH) transparentBlack))"

section \<open>Outline: the stage \<^verbatim>\<open>outline\<close> (lines 319-388)\<close>

text \<open>
  Lines 326-331: the posterised level of a pixel, \<^verbatim>\<open>Math.round\<close> rounding a half up. At
  \<^verbatim>\<open>outlineContrast = 259\<close> the contrast factor is \<open>+Infinity\<close> and the clamped gray is
  255 above luminance 128 and 0 below it; at 128 it is NaN and the level stored is 0.
\<close>

definition posterize :: "settings \<Rightarrow> rgba \<Rightarrow> byte" where
  "posterize s p =
     (let contrast' = outlineContrast s;
          levels = max 2 (outlineLevels s);
          levelStep = 255 / real_of_int (levels - 1);
          gray = getLuminance (num (red p)) (num (green p)) (num (blue p));
          gray = (if contrast' = 259 then (if gray > 128 then 255 else 0)
                  else max 0 (min 255 (contrastFactorOf contrast' * (gray - 128) + 128)))
      in toUint8Clamp (real_of_int \<lfloor>gray / levelStep + 1 / 2\<rfloor>))"

text \<open>Lines 333-342: a pixel is an edge when its right or lower neighbour has another level.\<close>

definition isEdge :: "nat \<Rightarrow> nat \<Rightarrow> byte list \<Rightarrow> nat \<Rightarrow> nat \<Rightarrow> bool" where
  "isEdge currentW currentH map' x y =
     (let i = y * currentW + x; cur = map' ! i in
      (x + 1 < currentW \<and> map' ! (i + 1) \<noteq> cur) \<or> (y + 1 < currentH \<and> map' ! (i + currentW) \<noteq> cur))"

text \<open>
  Lines 352-366: every edge pixel paints the square of the offsets \<open>-range .. range\<close> around
  it in the line colour, at the array positions that exist. \<^verbatim>\<open>lineCol.r\<close> is read at each
  write.
\<close>

definition paintAt :: "color option \<Rightarrow> nat \<Rightarrow> nat \<Rightarrow> nat \<Rightarrow> int \<Rightarrow> int \<Rightarrow> rgba list \<Rightarrow> error + rgba list" where
  "paintAt lineCol currentW x y dy dx offData =
     (let ni = (int y + dy) * int currentW + (int x + dx) in
      if ni \<ge> 0 \<and> ni < int (length offData) then
        (case lineCol of
           None \<Rightarrow> Inl TypeError
         | Some c \<Rightarrow> Inr (offData[nat ni := colorPixel c]))
      else Inr offData)"

definition outlineOffData :: "settings \<Rightarrow> nat \<Rightarrow> nat \<Rightarrow> rgba list \<Rightarrow> error + rgba list" where
  "outlineOffData s currentW currentH data =
     (let map' = map (\<lambda>i. posterize s (data ! i)) [0..<currentW * currentH];
          lineCol = hexToRgb (outlineColor s);
          thickness = outlineThickness s;
          range = \<lceil>real_of_int thickness / 2\<rceil>
      in forEachE [0..<currentW * currentH]
           (\<lambda>i offData.
              if isEdge currentW currentH map' (i mod currentW) (i div currentW) then
                forEachE [- range..range]
                  (\<lambda>dy. forEachE [- range..range]
                           (\<lambda>dx. paintAt lineCol currentW (i mod currentW) (i div currentW) dy dx))
                  offData
              else Inr offData)
           (replicate (currentW * currentH) transparentBlack))"

section \<open>The canvas operations of the browser\<close>

text \<open>
  Three stages draw with the 2D canvas of the browser, which is not code of the repository:
  scaling a canvas onto another (\<^verbatim>\<open>drawImage\<close> with a target size, with or without
  smoothing), compositing the outline layers (\<^verbatim>\<open>fillRect\<close>, \<^verbatim>\<open>drawImage\<close> under
  \<^verbatim>\<open>globalAlpha\<close> and \<^verbatim>\<open>source-in\<close>) and filling circles (\<^verbatim>\<open>arc\<close>, \<^verbatim>\<open>fill\<close>). They are
  parameters of the model.
\<close>

record canvasApi =
  drawScaled :: "bool \<Rightarrow> nat \<Rightarrow> nat \<Rightarrow> nat \<Rightarrow> nat \<Rightarrow> rgba list \<Rightarrow> rgba list"
  drawOutline :: "settings \<Rightarrow> nat \<Rightarrow> nat \<Rightarrow> rgba list \<Rightarrow> rgba list"
  fillCircles :: "bool \<Rightarrow> nat \<Rightarrow> nat \<Rightarrow> (real \<times> real \<times> real) list \<Rightarrow> rgba list"

text \<open>
  The stage \<^verbatim>\<open>pixel\<close> (lines 229-243): the canvas is drawn onto a temporary canvas of
  \<open>tinyW\<close> by \<open>tinyH\<close> pixels and drawn back, unsmoothed, at full size. Drawing from a canvas
  of width or height 0 throws.
\<close>

definition pixelStage :: "canvasApi \<Rightarrow> settings \<Rightarrow> nat \<Rightarrow> nat \<Rightarrow> rgba list \<Rightarrow> error + rgba list" where
  "pixelStage api s currentW currentH data =
     (let factor = max 1 (pixelSize s);
          tinyW = nat (int currentW div factor);
          tinyH = nat (int currentH div factor)
      in if tinyW = 0 \<or> tinyH = 0 then Inl InvalidStateError
         else Inr (drawScaled api False tinyW tinyH currentW currentH
                     (drawScaled api True currentW currentH tinyW tinyH data)))"

definition outlineStage :: "canvasApi \<Rightarrow> settings \<Rightarrow> nat \<Rightarrow> nat \<Rightarrow> rgba list \<Rightarrow> error + rgba list" where
  "outlineStage api s currentW currentH data =
     (case outlineOffData s currentW currentH data of
        Inl e \<Rightarrow> Inl e
      | Inr offData \<Rightarrow> Inr (drawOutline api s currentW currentH offData))"

text \<open>
  The stage \<^verbatim>\<open>halftone\<close> (lines 419-442): one circle per cell of \<open>step\<close> by \<open>step\<close> pixels,
  given by its centre and radius, when the radius exceeds 0.5.
\<close>

definition halftoneDots :: "settings \<Rightarrow> nat \<Rightarrow> nat \<Rightarrow> rgba list \<Rightarrow> (real \<times> real \<times> real) list" where
  "halftoneDots s currentW currentH data =
     (let step = nat (max 4 (dotSize s));
          ys = map (\<lambda>k. k * step) [0..<(currentH + step - 1) div step];
          xs = map (\<lambda>k. k * step) [0..<(currentW + step - 1) div step]
      in concat (map (\<lambda>y. concat (map (\<lambda>x.
           (let i = min (currentH - 1) (y + step div 2) * currentW
                      + min (currentW - 1) (x + step div 2);
                lum' = lum (data ! i) / 255;
                radius = (if invertHalftone s then lum' * real step / 2
                          else (1 - lum') * real step / 2)
            in if radius > 0.5 then [(real x + real step / 2, real y + real step / 2, radius)]
               else [])) xs)) ys))"

definition halftoneStage :: "canvasApi \<Rightarrow> settings \<Rightarrow> nat \<Rightarrow> nat \<Rightarrow> rgba list \<Rightarrow> rgba list" where
  "halftoneStage api s currentW currentH data =
     fillCircles api (invertHalftone s) currentW currentH (halftoneDots s currentW currentH data)"

section \<open>The pipeline (lines 115-123 and 206-551)\<close>

definition toggleMode :: "string \<Rightarrow> string list \<Rightarrow> string list" where
  "toggleMode modeId prev =
     (if modeId \<in> set prev then filter (\<lambda>m. m \<noteq> modeId) prev else prev @ [modeId])"

definition pipelineOrder :: "string list" where
  "pipelineOrder =
     [''pixel'', ''bw'', ''sort'', ''outline'', ''edge'', ''halftone'', ''dither'',
      ''chromatic'', ''crt'']"

text \<open>The chain of \<^verbatim>\<open>if (mode === ...)\<close> inside the callback (lines 229-549).\<close>

definition runStage ::
  "canvasApi \<Rightarrow> settings \<Rightarrow> (nat \<Rightarrow> real) \<Rightarrow> nat \<Rightarrow> nat \<Rightarrow> string \<Rightarrow> rgba list \<Rightarrow> error + rgba list" where
  "runStage api s rnd currentW currentH mode data =
     (if mode = ''pixel'' then pixelStage api s currentW currentH data
      else if mode = ''bw'' then Inr (bwStage s rnd data)
      else if mode = ''sort'' then Inr (sortStage s currentW currentH data)
      else if mode = ''outline'' then outlineStage api s currentW currentH data
      else if mode = ''edge'' then edgeStage s currentW currentH data
      else if mode = ''halftone'' then Inr (halftoneStage api s currentW currentH data)
      else if mode = ''dither'' then ditherStage s currentW currentH data
      else if mode = ''chromatic'' then Inr (chromaticStage s currentW currentH data)
      else if mode = ''crt'' then Inr (crtStage s currentW currentH data)
      else Inr data)"

text \<open>
  \<^verbatim>\<open>pipelineOrder.forEach(mode => { if (!activeModes.includes(mode)) return; ... })\<close>
  (lines 220-551), on the pixels of the canvas.
\<close>

definition runPipeline ::
  "canvasApi \<Rightarrow> settings \<Rightarrow> (nat \<Rightarrow> real) \<Rightarrow> string list \<Rightarrow> nat \<Rightarrow> nat \<Rightarrow> rgba list \<Rightarrow> error + rgba list" where
  "runPipeline api s rnd activeModes currentW currentH canvas =
     forEachE pipelineOrder
       (\<lambda>mode data. if mode \<notin> set activeModes then Inr data
                     else runStage api s rnd currentW currentH mode data)
       canvas"

text \<open>The stages one after the other, each on the pixels the one before left.\<close>

fun runStages ::
  "canvasApi \<Rightarrow> settings \<Rightarrow> (nat \<Rightarrow> real) \<Rightarrow> nat \<Rightarrow> nat \<Rightarrow> string list \<Rightarrow> rgba list \<Rightarrow> error + rgba list" where
  "runStages api s rnd currentW currentH [] data = Inr data"
| "runStages api s rnd currentW currentH (mode # modes) data =
     (case runStage api s rnd currentW currentH mode data of
        Inl e \<Rightarrow> Inl e
      | Inr data' \<Rightarrow> runStages api s rnd currentW currentH modes data')"

text \<open>What a toggle does to the set of the active modes: membership of \<open>m\<close> is flipped.\<close>

definition toggleSet :: "'a \<Rightarrow> 'a set \<Rightarrow> 'a set" where
  "toggleSet m S = (S - {m}) \<union> ({m} - S)"

text \<open>
  A stand-in for the canvas of the browser in the concrete runs below: its drawing
  operations hand back the pixels they are given (a blank canvas for the circles).
\<close>

definition plainCanvas :: canvasApi where
  "plainCanvas =
     \<lparr>drawScaled = (\<lambda>smooth w h w' h' data. data),
      drawOutline = (\<lambda>s w h offData. offData),
      fillCircles = (\<lambda>invert w h dots. replicate (w * h) \<lparr>red = 255, green = 255, blue = 255, alpha = 255\<rparr>)\<rparr>"

text \<open>The black or white pixel of the palette mode \<^verbatim>\<open>bw\<close> (line 495).\<close>

definition bwOf :: "bool \<Rightarrow> rgba" where
  "bwOf isLight = (let v = (if isLight then 255 else 0) in \<lparr>red = v, green = v, blue = v, alpha = 255\<rparr>)"








text \<open>One row of the horizontal pass: the row is read, sorted, and its colours written back.\<close>

definition sortRowStep :: "real \<Rightarrow> nat \<Rightarrow> nat \<Rightarrow> rgba list \<Rightarrow> rgba list" where
  "sortRowStep thresh W y d =
     (let rowPixels = map (\<lambda>x. d ! (y * W + x)) [0..<W];
          rowPixels = sortRuns thresh W rowPixels 0
      in fold (\<lambda>x d. d[y * W + x := writeRgb (d ! (y * W + x)) (rowPixels ! x)]) [0..<W] d)"

text \<open>The three colour channels of a pixel, which is all the write-back of lines 284-287 copies.\<close>

definition rgbOf :: "rgba \<Rightarrow> byte \<times> byte \<times> byte" where
  "rgbOf p = (red p, green p, blue p)"


text \<open>Row \<open>y\<close> of a buffer of width \<open>W\<close>, left to right.\<close>

definition rowOf :: "nat \<Rightarrow> rgba list \<Rightarrow> nat \<Rightarrow> rgba list" where
  "rowOf W data y = map (\<lambda>x. pixelAt W data x y) [0..<W]"

text \<open>
  The positions \<open>b, \<dots>, e - 1\<close> of a row form a maximal run above the threshold: every pixel
  of the run has a luminance strictly above it, and the run cannot be extended on either side.
\<close>

definition maximalRun :: "real \<Rightarrow> rgba list \<Rightarrow> nat \<Rightarrow> nat \<Rightarrow> bool" where
  "maximalRun thresh row b e =
     (b < e \<and> e \<le> length row
      \<and> list_all (\<lambda>j. lum (row ! j) > thresh) [b..<e]
      \<and> (b = 0 \<or> \<not> lum (row ! (b - 1)) > thresh)
      \<and> (e = length row \<or> \<not> lum (row ! e) > thresh))"

section \<open>Loops over the pixel grid\<close>

text \<open>
  Most stages are a loop over the rows \<open>y\<close> and, inside it, over the columns \<open>x\<close>, which
  writes the pixel at index \<open>y * currentW + x\<close> from the value that pixel holds and from
  data the loop does not change. Such a loop computes each pixel on its own.
\<close>

lemma index_inj:
  fixes W :: nat
  assumes "x < W" "x' < W"
  shows "y * W + x = y' * W + x' \<longleftrightarrow> x = x' \<and> y = y'"
proof
  assume eq: "y * W + x = y' * W + x'"
  have "(y * W + x) div W = y" "(y' * W + x') div W = y'"
    using assms by simp_all
  then have "y = y'" using eq by simp
  then show "x = x' \<and> y = y'" using eq by simp
qed simp

lemma index_bound:
  fixes W :: nat
  assumes "x < W" "y < H"
  shows "y * W + x < W * H"
proof -
  have "y * W + x < y * W + W" using assms by simp
  also have "\<dots> = (Suc y) * W" by simp
  also have "\<dots> \<le> H * W" using assms by (intro mult_le_mono1) simp
  finally show ?thesis by (simp add: mult.commute)
qed

lemma fold_row_length:
  "length (fold (\<lambda>x d. d[k + x := g x (d ! (k + x))]) xs d) = length d"
  by (induction xs arbitrary: d) simp_all

lemma fold_row_update:
  fixes g :: "nat \<Rightarrow> 'a \<Rightarrow> 'a"
  assumes "distinct xs" and "j < length d"
  shows "fold (\<lambda>x d. d[k + x := g x (d ! (k + x))]) xs d ! j =
           (if j \<ge> k \<and> j - k \<in> set xs then g (j - k) (d ! j) else d ! j)"
  using assms
proof (induction xs arbitrary: d)
  case Nil
  then show ?case by simp
next
  case (Cons x xs)
  let ?d = "d[k + x := g x (d ! (k + x))]"
  have d: "distinct xs" "x \<notin> set xs" using Cons.prems by simp_all
  have "fold (\<lambda>x d. d[k + x := g x (d ! (k + x))]) (x # xs) d ! j =
        (if j \<ge> k \<and> j - k \<in> set xs then g (j - k) (?d ! j) else ?d ! j)"
    using Cons.IH[of ?d] d Cons.prems by simp
  also have "\<dots> = (if j \<ge> k \<and> j - k \<in> set (x # xs) then g (j - k) (d ! j) else d ! j)"
  proof (cases "j \<ge> k \<and> j - k \<in> set xs")
    case True
    then have "j \<noteq> k + x" using d by auto
    then show ?thesis using True by simp
  next
    case False
    then show ?thesis using Cons.prems by (auto simp: nth_list_update)
  qed
  finally show ?case .
qed

lemma fold_grid_length:
  "length (fold (\<lambda>y. fold (\<lambda>x d. d[y * W + x := g x y (d ! (y * W + x))]) [0..<W]) ys d)
     = length d"
proof (induction ys arbitrary: d)
  case Nil
  show ?case by simp
next
  case (Cons y ys)
  show ?case
    using Cons[of "fold (\<lambda>x d. d[y * W + x := g x y (d ! (y * W + x))]) [0..<W] d"]
      fold_row_length[of "y * W" "\<lambda>x. g x y" "[0..<W]" d]
    by simp
qed

lemma fold_grid_update:
  fixes g :: "nat \<Rightarrow> nat \<Rightarrow> 'a \<Rightarrow> 'a"
  assumes "distinct ys" and "x < W" and "y * W + x < length d"
  shows "fold (\<lambda>y. fold (\<lambda>x d. d[y * W + x := g x y (d ! (y * W + x))]) [0..<W]) ys d
           ! (y * W + x) =
           (if y \<in> set ys then g x y (d ! (y * W + x)) else d ! (y * W + x))"
  using assms
proof (induction ys arbitrary: d)
  case Nil
  then show ?case by simp
next
  case (Cons y' ys)
  let ?row = "\<lambda>d. fold (\<lambda>x d. d[y' * W + x := g x y' (d ! (y' * W + x))]) [0..<W] d"
  have len: "length (?row d) = length d" for d
    by (rule fold_row_length)
  have d: "distinct ys" "y' \<notin> set ys" using Cons.prems by simp_all
  have j: "y * W + x < length (?row d)" using Cons.prems len by simp
  have upd: "?row d ! (y * W + x) =
               (if y' * W \<le> y * W + x \<and> y * W + x - y' * W \<in> set [0..<W]
                then g (y * W + x - y' * W) y' (d ! (y * W + x)) else d ! (y * W + x))"
    using fold_row_update[of "[0..<W]" "y * W + x" d "y' * W" "\<lambda>x. g x y'"] Cons.prems
    by simp
  have row: "?row d ! (y * W + x) =
               (if y = y' then g x y (d ! (y * W + x)) else d ! (y * W + x))"
  proof (cases "y = y'")
    case True
    then show ?thesis using upd Cons.prems by simp
  next
    case False
    have "\<not> (y' * W \<le> y * W + x \<and> y * W + x - y' * W \<in> set [0..<W])"
    proof
      assume a: "y' * W \<le> y * W + x \<and> y * W + x - y' * W \<in> set [0..<W]"
      then have "y * W + x = y' * W + (y * W + x - y' * W)" "y * W + x - y' * W < W" by simp_all
      then have "y = y'" using index_inj[of x W "y * W + x - y' * W" y y'] Cons.prems by simp
      then show False using False by simp
    qed
    then have "?row d ! (y * W + x) = d ! (y * W + x)"
      unfolding upd by (rule if_not_P)
    then show ?thesis using False by simp
  qed
  show ?case using Cons.IH[of "?row d"] d Cons.prems j row by auto
qed

lemma fold_grid_nth:
  fixes g :: "nat \<Rightarrow> nat \<Rightarrow> 'a \<Rightarrow> 'a"
  assumes "length d = W * H" "x < W" "y < H"
  shows "fold (\<lambda>y. fold (\<lambda>x d. d[y * W + x := g x y (d ! (y * W + x))]) [0..<W]) [0..<H] d
           ! (y * W + x) = g x y (d ! (y * W + x))"
  using fold_grid_update[of "[0..<H]" x W y d g] assms index_bound[of x W y H] by simp

section \<open>Properties of the chromatic shift\<close>

lemma chromaticStage_nth:
  assumes "x < currentW" "y < currentH"
  shows "pixelAt currentW (chromaticStage s currentW currentH data) x y
           = chromaticPixel s currentW currentH data x y"
  unfolding chromaticStage_def pixelAt_def
  using fold_grid_nth[of "replicate (currentW * currentH) transparentBlack" currentW currentH x y
          "\<lambda>x y _. chromaticPixel s currentW currentH data x y"] assms
  by simp

lemma chromaticStage_length:
  "length (chromaticStage s currentW currentH data) = currentW * currentH"
  unfolding chromaticStage_def
  using fold_grid_length[of currentW "\<lambda>x y _. chromaticPixel s currentW currentH data x y"
          "[0..<currentH]" "replicate (currentW * currentH) transparentBlack"]
  by simp

lemma clampCoord_less: "0 < n \<Longrightarrow> clampCoord n c < n"
  by (auto simp: clampCoord_def)

lemma clamp_index:
  assumes "0 < W" "0 < H"
  shows "nat (min (int H - 1) (max 0 cy) * int W + min (int W - 1) (max 0 cx))
           = clampCoord H cy * W + clampCoord W cx"
proof -
  have "0 \<le> min (int H - 1) (max 0 cy)" "0 \<le> min (int W - 1) (max 0 cx)"
    using assms by simp_all
  then show ?thesis
    by (simp add: clampCoord_def nat_add_distrib nat_mult_distrib)
qed

text \<open>
  Claim C6. For the chromatic stage with a non-negative offset (of any size), the output
  pixel at \<open>(x, y)\<close> takes its red channel from the input at \<open>(x + offset, y)\<close> (or
  \<open>(x, y + offset)\<close> when the direction is vertical), its green channel from the input at
  \<open>(x, y)\<close> and its blue channel from the input at \<open>(x - offset, y)\<close> (or \<open>(x, y - offset)\<close>),
  every sampling coordinate clamped into \<open>[0, currentW - 1]\<close> and \<open>[0, currentH - 1]\<close>, and its
  alpha is 255.
\<close>

theorem chromatic_shift_samples_clamped:
  assumes "length data = currentW * currentH" and "x < currentW" and "y < currentH"
    and "0 \<le> offset s"
  shows "pixelAt currentW (chromaticStage s currentW currentH data) x y =
           (if direction s = ''vertical''
            then \<lparr>red = red (pixelAt currentW data x (clampCoord currentH (int y + offset s))),
                  green = green (pixelAt currentW data x y),
                  blue = blue (pixelAt currentW data x (clampCoord currentH (int y - offset s))),
                  alpha = 255\<rparr>
            else \<lparr>red = red (pixelAt currentW data (clampCoord currentW (int x + offset s)) y),
                  green = green (pixelAt currentW data x y),
                  blue = blue (pixelAt currentW data (clampCoord currentW (int x - offset s)) y),
                  alpha = 255\<rparr>)
         \<and> clampCoord currentW (int x + offset s) \<le> currentW - 1
         \<and> clampCoord currentW (int x - offset s) \<le> currentW - 1
         \<and> clampCoord currentH (int y + offset s) \<le> currentH - 1
         \<and> clampCoord currentH (int y - offset s) \<le> currentH - 1
         \<and> length (chromaticStage s currentW currentH data) = length data"
proof -
  have pos: "0 < currentW" "0 < currentH" using assms by simp_all
  have cx: "nat (min (int currentW - 1) (max 0 (int x))) = x"
    and cy: "nat (min (int currentH - 1) (max 0 (int y))) = y"
    using assms by simp_all
  have self_x: "clampCoord currentW (int x) = x" and self_y: "clampCoord currentH (int y) = y"
    using cx cy by (simp_all add: clampCoord_def)
  have px: "pixelAt currentW (chromaticStage s currentW currentH data) x y =
           (if direction s = ''vertical''
            then \<lparr>red = red (pixelAt currentW data x (clampCoord currentH (int y + offset s))),
                  green = green (pixelAt currentW data x y),
                  blue = blue (pixelAt currentW data x (clampCoord currentH (int y - offset s))),
                  alpha = 255\<rparr>
            else \<lparr>red = red (pixelAt currentW data (clampCoord currentW (int x + offset s)) y),
                  green = green (pixelAt currentW data x y),
                  blue = blue (pixelAt currentW data (clampCoord currentW (int x - offset s)) y),
                  alpha = 255\<rparr>)"
    unfolding chromaticStage_nth[OF assms(2,3)] chromaticPixel_def Let_def
    by (simp add: clamp_index[OF pos] pixelAt_def self_x self_y)
  have bounds: "clampCoord currentW (int x + offset s) \<le> currentW - 1"
    "clampCoord currentW (int x - offset s) \<le> currentW - 1"
    "clampCoord currentH (int y + offset s) \<le> currentH - 1"
    "clampCoord currentH (int y - offset s) \<le> currentH - 1"
    using clampCoord_less[OF pos(1), of "int x + offset s"]
      clampCoord_less[OF pos(1), of "int x - offset s"]
      clampCoord_less[OF pos(2), of "int y + offset s"]
      clampCoord_less[OF pos(2), of "int y - offset s"]
    by linarith+
  have len: "length (chromaticStage s currentW currentH data) = length data"
    using chromaticStage_length assms(1) by simp
  show ?thesis using px bounds len by blast
qed

text \<open>
  A two-pixel row shifted by 5, more than its width: the left pixel takes its red from the
  right pixel (the last column), its blue from itself (column 0).
\<close>

theorem chromatic_shift_samples_clamped_witness:
  "length [\<lparr>red = 10, green = 11, blue = 12, alpha = 13\<rparr>,
           \<lparr>red = 30, green = 31, blue = 32, alpha = 33\<rparr>] = 2 * 1
   \<and> (0::nat) < 2 \<and> (0::nat) < 1 \<and> 0 \<le> offset (defaultSettings\<lparr>offset := 5\<rparr>)
   \<and> pixelAt 2 (chromaticStage (defaultSettings\<lparr>offset := 5\<rparr>) 2 1
        [\<lparr>red = 10, green = 11, blue = 12, alpha = 13\<rparr>,
         \<lparr>red = 30, green = 31, blue = 32, alpha = 33\<rparr>]) 0 0
       = \<lparr>red = 30, green = 11, blue = 12, alpha = 255\<rparr>"
  using chromatic_shift_samples_clamped[of
      "[\<lparr>red = 10, green = 11, blue = 12, alpha = 13\<rparr>,
        \<lparr>red = 30, green = 31, blue = 32, alpha = 33\<rparr>]" 2 1 0 0
      "defaultSettings\<lparr>offset := 5\<rparr>"]
  by (simp add: defaultSettings_def clampCoord_def pixelAt_def)

section \<open>The order of the stages\<close>

lemma forEachE_filter:
  "forEachE xs (\<lambda>mode data. if \<not> P mode then Inr data else f mode data) st
     = forEachE (filter P xs) f st"
  by (induction xs arbitrary: st) (auto split: sum.splits)

lemma runStages_forEachE:
  "runStages api s rnd W H modes data = forEachE modes (runStage api s rnd W H) data"
  by (induction modes arbitrary: data) (auto split: sum.splits)

lemma runPipeline_filter:
  "runPipeline api s rnd activeModes W H canvas
     = runStages api s rnd W H (filter (\<lambda>mode. mode \<in> set activeModes) pipelineOrder) canvas"
  unfolding runPipeline_def runStages_forEachE
  using forEachE_filter[where P = "\<lambda>mode. mode \<in> set activeModes"
      and f = "runStage api s rnd W H" and xs = pipelineOrder and st = canvas]
  by simp

lemma set_toggleMode: "set (toggleMode m prev) = toggleSet m (set prev)"
  by (auto simp: toggleMode_def toggleSet_def)

lemma toggleSet_commute: "toggleSet a \<circ> toggleSet b = toggleSet b \<circ> toggleSet a"
  by (auto simp: toggleSet_def fun_eq_iff)

lemma set_fold_toggleMode:
  "set (fold toggleMode ts init) = fold toggleSet ts (set init)"
  by (induction ts arbitrary: init) (simp_all add: set_toggleMode)

lemma toggle_order_irrelevant:
  assumes "mset ts = mset ts'"
  shows "set (fold toggleMode ts init) = set (fold toggleMode ts' init)"
proof -
  have "fold toggleSet ts = (fold toggleSet ts' :: string set \<Rightarrow> string set)"
    by (rule fold_multiset_equiv) (simp_all add: toggleSet_commute assms)
  then show ?thesis by (simp add: set_fold_toggleMode)
qed

text \<open>
  Claim C1. Whatever the list \<^verbatim>\<open>activeModes\<close> and whatever the order of the toggles that
  built it, a run of the pipeline is the run of the enabled stages, one after the other,
  in the fixed order pixel, bw (tone), sort, outline, edge, halftone, dither, chromatic,
  crt restricted to the set of the active modes; the other stages do not run. Two lists
  with the same elements, and two orders of the same toggles, give the same run. (A stage
  that throws ends the run, in \<open>runPipeline\<close> and in \<open>runStages\<close> alike.)
\<close>

theorem pipeline_runs_enabled_stages_in_canonical_order:
  "pipelineOrder = [''pixel'', ''bw'', ''sort'', ''outline'', ''edge'', ''halftone'', ''dither'',
      ''chromatic'', ''crt'']
   \<and> runPipeline api s rnd activeModes currentW currentH canvas
       = runStages api s rnd currentW currentH
           (filter (\<lambda>mode. mode \<in> set activeModes) pipelineOrder) canvas
   \<and> (set activeModes = set activeModes' \<longrightarrow>
        runPipeline api s rnd activeModes currentW currentH canvas
          = runPipeline api s rnd activeModes' currentW currentH canvas)
   \<and> (mset toggles = mset toggles' \<longrightarrow>
        runPipeline api s rnd (fold toggleMode toggles init) currentW currentH canvas
          = runPipeline api s rnd (fold toggleMode toggles' init) currentW currentH canvas)"
  using toggle_order_irrelevant[of toggles toggles' init]
  by (simp add: runPipeline_filter pipelineOrder_def)

text \<open>
  The modes crt and chromatic, enabled in this order on the initial list \<^verbatim>\<open>['pixel']\<close> or in
  the other order: chromatic runs before crt.
\<close>

theorem pipeline_runs_enabled_stages_in_canonical_order_witness:
  "set [''crt'', ''chromatic''] = set [''chromatic'', ''crt'']
   \<and> mset [''pixel'', ''crt'', ''chromatic''] = mset [''chromatic'', ''pixel'', ''crt'']
   \<and> fold toggleMode [''pixel'', ''crt'', ''chromatic''] [''pixel''] = [''crt'', ''chromatic'']
   \<and> fold toggleMode [''chromatic'', ''pixel'', ''crt''] [''pixel''] = [''chromatic'', ''crt'']
   \<and> runPipeline plainCanvas defaultSettings (\<lambda>i. 0) [''crt'', ''chromatic''] 1 1
         [\<lparr>red = 10, green = 11, blue = 12, alpha = 13\<rparr>]
       = runStages plainCanvas defaultSettings (\<lambda>i. 0) 1 1 [''chromatic'', ''crt'']
           [\<lparr>red = 10, green = 11, blue = 12, alpha = 13\<rparr>]
   \<and> runPipeline plainCanvas defaultSettings (\<lambda>i. 0) [''crt'', ''chromatic''] 1 1
         [\<lparr>red = 10, green = 11, blue = 12, alpha = 13\<rparr>]
       = runPipeline plainCanvas defaultSettings (\<lambda>i. 0) [''chromatic'', ''crt''] 1 1
           [\<lparr>red = 10, green = 11, blue = 12, alpha = 13\<rparr>]
   \<and> runPipeline plainCanvas defaultSettings (\<lambda>i. 0)
         (fold toggleMode [''pixel'', ''crt'', ''chromatic''] [''pixel'']) 1 1
         [\<lparr>red = 10, green = 11, blue = 12, alpha = 13\<rparr>]
       = runPipeline plainCanvas defaultSettings (\<lambda>i. 0)
           (fold toggleMode [''chromatic'', ''pixel'', ''crt''] [''pixel'']) 1 1
           [\<lparr>red = 10, green = 11, blue = 12, alpha = 13\<rparr>]"
proof -
  have sets: "set [''crt'', ''chromatic''] = set [''chromatic'', ''crt'']" by auto
  have msets: "mset [''pixel'', ''crt'', ''chromatic''] = mset [''chromatic'', ''pixel'', ''crt'']"
    by simp
  have t1: "fold toggleMode [''pixel'', ''crt'', ''chromatic''] [''pixel''] = [''crt'', ''chromatic'']"
    and t2: "fold toggleMode [''chromatic'', ''pixel'', ''crt''] [''pixel''] = [''chromatic'', ''crt'']"
    by (simp_all add: toggleMode_def)
  have flt: "filter (\<lambda>mode. mode \<in> set [''crt'', ''chromatic'']) pipelineOrder
               = [''chromatic'', ''crt'']"
    by (simp add: pipelineOrder_def)
  note inst = pipeline_runs_enabled_stages_in_canonical_order[of plainCanvas defaultSettings
      "\<lambda>i. 0" "[''crt'', ''chromatic'']" 1 1 "[\<lparr>red = 10, green = 11, blue = 12, alpha = 13\<rparr>]"
      "[''chromatic'', ''crt'']" "[''pixel'', ''crt'', ''chromatic'']"
      "[''chromatic'', ''pixel'', ''crt'']" "[''pixel'']"]
  show ?thesis
    using inst sets msets unfolding flt t1 t2 by blast
qed

section \<open>The flat threshold of the dither stage\<close>

lemma forEachE_total:
  assumes "\<And>x st. body x st = Inr (g x st)"
  shows "forEachE xs body st = Inr (fold g xs st)"
  by (induction xs arbitrary: st) (simp_all add: assms)

lemma fold_keep_fst:
  "fold (\<lambda>x st. (fst st, F (fst st) x (snd st))) xs (gb, d) = (gb, fold (F gb) xs d)"
  by (induction xs arbitrary: d) simp_all

lemma ditherBody_threshold_bw:
  assumes "ditherAlgo s = ''threshold''" "ditherType s = ''bw''"
  shows "ditherBody s W H dark light t y x st =
           Inr (fst st, (snd st)[y * W + x :=
                  (let v = (if fst st ! (y * W + x) > t then 255 else 0)
                   in \<lparr>red = v, green = v, blue = v, alpha = 255\<rparr>)])"
  using assms by (simp add: ditherBody_def ditherDecide_def ditherColor_def Let_def)

lemma ditherStage_threshold_bw:
  assumes "ditherAlgo s = ''threshold''" "ditherType s = ''bw''"
  shows "ditherStage s W H data =
     Inr (fold (\<lambda>y. fold (\<lambda>x d. d[y * W + x :=
             (\<lambda>x y old. bwOf (map (\<lambda>i. lum (data ! i)) [0..<W * H] ! (y * W + x) > real_of_int (ditherThreshold s))) x y (d ! (y * W + x))]) [0..<W]) [0..<H] data)"
proof -
  let ?gb = "map (\<lambda>i. lum (data ! i)) [0..<W * H]"
  let ?t = "real_of_int (ditherThreshold s)"
  let ?F = "\<lambda>y gb x d. d[y * W + x := bwOf (gb ! (y * W + x) > ?t)]"
  have body: "ditherBody s W H dark light ?t y x st = Inr (fst st, ?F y (fst st) x (snd st))"
    for dark light y x st
    using ditherBody_threshold_bw[OF assms] by (simp add: bwOf_def Let_def)
  have inner: "forEachE [0..<W] (ditherBody s W H dark light ?t y) st
                = Inr (fst st, fold (?F y (fst st)) [0..<W] (snd st))" for dark light y st
  proof -
    have "forEachE [0..<W] (ditherBody s W H dark light ?t y) st
            = Inr (fold (\<lambda>x st. (fst st, ?F y (fst st) x (snd st))) [0..<W] st)"
      by (rule forEachE_total) (rule body)
    also have "fold (\<lambda>x st. (fst st, ?F y (fst st) x (snd st))) [0..<W] st
                 = (fst st, fold (?F y (fst st)) [0..<W] (snd st))"
      using fold_keep_fst[of "?F y" "[0..<W]" "fst st" "snd st"] by simp
    finally show ?thesis .
  qed
  have outer: "forEachE [0..<H] (\<lambda>y. forEachE [0..<W] (ditherBody s W H dark light ?t y)) (gb, d)
                = Inr (gb, fold (\<lambda>y. fold (?F y gb) [0..<W]) [0..<H] d)" for dark light gb d
  proof -
    have "forEachE [0..<H] (\<lambda>y. forEachE [0..<W] (ditherBody s W H dark light ?t y)) (gb, d)
            = Inr (fold (\<lambda>y st. (fst st, (\<lambda>gb y. fold (?F y gb) [0..<W]) (fst st) y (snd st))) [0..<H] (gb, d))"
      by (rule forEachE_total) (simp add: inner)
    also have "fold (\<lambda>y st. (fst st, (\<lambda>gb y. fold (?F y gb) [0..<W]) (fst st) y (snd st))) [0..<H] (gb, d)
                 = (gb, fold ((\<lambda>gb y. fold (?F y gb) [0..<W]) gb) [0..<H] d)"
      by (rule fold_keep_fst)
    finally show ?thesis by simp
  qed
  show ?thesis
    unfolding ditherStage_def Let_def outer by simp
qed

lemma lum_gray128: "lum \<lparr>red = 128, green = 128, blue = 128, alpha = a\<rparr> = 128"
  by (simp add: lum_def getLuminance_def num_def)

text \<open>
  Claim C2. With the algorithm \<^verbatim>\<open>threshold\<close> and the palette mode \<^verbatim>\<open>bw\<close> the dither stage
  does not throw, and every output pixel is pure white (255, 255, 255, 255) when the
  luminance of the input pixel strictly exceeds \<^verbatim>\<open>ditherThreshold\<close> and pure black
  (0, 0, 0, 255) otherwise, whatever its position. In particular the pipeline with only
  the mode dither active, the threshold 127 and a 4 by 4 image of pixels (128, 128, 128)
  gives sixteen pixels (255, 255, 255, 255).
\<close>

theorem dither_flat_threshold_bw:
  assumes "ditherAlgo s = ''threshold''" and "ditherType s = ''bw''"
    and "length data = currentW * currentH"
  shows "(\<exists>out. ditherStage s currentW currentH data = Inr out
            \<and> length out = currentW * currentH
            \<and> (\<forall>x y. x < currentW \<and> y < currentH \<longrightarrow>
                  pixelAt currentW out x y =
                    (if lum (pixelAt currentW data x y) > real_of_int (ditherThreshold s)
                     then \<lparr>red = 255, green = 255, blue = 255, alpha = 255\<rparr>
                     else \<lparr>red = 0, green = 0, blue = 0, alpha = 255\<rparr>)))
         \<and> runPipeline api (s\<lparr>ditherThreshold := 127\<rparr>) rnd [''dither''] 4 4
               (replicate 16 \<lparr>red = 128, green = 128, blue = 128, alpha = a\<rparr>)
             = Inr (replicate 16 \<lparr>red = 255, green = 255, blue = 255, alpha = 255\<rparr>)"
proof -
  have general: "\<exists>out. ditherStage s' W H d = Inr out \<and> length out = W * H
            \<and> (\<forall>x y. x < W \<and> y < H \<longrightarrow>
                  pixelAt W out x y =
                    (if lum (pixelAt W d x y) > real_of_int (ditherThreshold s')
                     then \<lparr>red = 255, green = 255, blue = 255, alpha = 255\<rparr>
                     else \<lparr>red = 0, green = 0, blue = 0, alpha = 255\<rparr>))"
    if a: "ditherAlgo s' = ''threshold''" "ditherType s' = ''bw''" and len: "length d = W * H"
    for s' W H d
  proof -
    let ?g = "\<lambda>x y (old::rgba). bwOf (map (\<lambda>i. lum (d ! i)) [0..<W * H] ! (y * W + x)
                                       > real_of_int (ditherThreshold s'))"
    let ?out = "fold (\<lambda>y. fold (\<lambda>x d. d[y * W + x := ?g x y (d ! (y * W + x))]) [0..<W]) [0..<H] d"
    have st: "ditherStage s' W H d = Inr ?out"
      by (rule ditherStage_threshold_bw[OF a])
    have l: "length ?out = W * H"
      using fold_grid_length[of W ?g "[0..<H]" d] len by simp
    have px: "pixelAt W ?out x y =
                (if lum (pixelAt W d x y) > real_of_int (ditherThreshold s')
                 then \<lparr>red = 255, green = 255, blue = 255, alpha = 255\<rparr>
                 else \<lparr>red = 0, green = 0, blue = 0, alpha = 255\<rparr>)"
      if "x < W" "y < H" for x y
    proof -
      have "y * W + x < W * H" using that by (rule index_bound)
      then have gb: "map (\<lambda>i. lum (d ! i)) [0..<W * H] ! (y * W + x) = lum (d ! (y * W + x))"
        by simp
      have "?out ! (y * W + x) = ?g x y (d ! (y * W + x))"
        using fold_grid_nth[of d W H x y ?g] len that by simp
      then show ?thesis unfolding pixelAt_def gb by (simp add: bwOf_def)
    qed
    show ?thesis using st l px by blast
  qed
  have first: "\<exists>out. ditherStage s currentW currentH data = Inr out
            \<and> length out = currentW * currentH
            \<and> (\<forall>x y. x < currentW \<and> y < currentH \<longrightarrow>
                  pixelAt currentW out x y =
                    (if lum (pixelAt currentW data x y) > real_of_int (ditherThreshold s)
                     then \<lparr>red = 255, green = 255, blue = 255, alpha = 255\<rparr>
                     else \<lparr>red = 0, green = 0, blue = 0, alpha = 255\<rparr>))"
    using general[OF assms] .
  let ?s = "s\<lparr>ditherThreshold := 127\<rparr>"
  let ?gray = "\<lparr>red = 128, green = 128, blue = 128, alpha = a\<rparr>"
  let ?white = "\<lparr>red = 255, green = 255, blue = 255, alpha = 255\<rparr> :: rgba"
  obtain out where out: "ditherStage ?s 4 4 (replicate 16 ?gray) = Inr out" "length out = 16"
    and px: "\<And>x y. x < 4 \<Longrightarrow> y < 4 \<Longrightarrow> pixelAt 4 out x y =
               (if lum (pixelAt 4 (replicate 16 ?gray) x y) > real_of_int (ditherThreshold ?s)
                then ?white else \<lparr>red = 0, green = 0, blue = 0, alpha = 255\<rparr>)"
    using general[of ?s "replicate 16 ?gray" 4 4] assms(1,2) by auto
  have "out = replicate 16 ?white"
  proof (rule nth_equalityI)
    show "length out = length (replicate 16 ?white)" using out(2) by simp
  next
    fix i assume "i < length out"
    then have i: "i < 16" using out(2) by simp
    then have xy: "i mod 4 < 4" "i div 4 < 4" "i div 4 * 4 + i mod 4 = i" by simp_all
    have "pixelAt 4 (replicate 16 ?gray) (i mod 4) (i div 4) = ?gray"
      unfolding pixelAt_def xy(3) using i by simp
    then have "pixelAt 4 out (i mod 4) (i div 4) = ?white"
      using px[OF xy(1,2)] by (simp add: lum_gray128)
    then show "out ! i = replicate 16 ?white ! i"
      unfolding pixelAt_def xy(3) using i by simp
  qed
  moreover have "runPipeline api ?s rnd [''dither''] 4 4 (replicate 16 ?gray)
                   = ditherStage ?s 4 4 (replicate 16 ?gray)"
    by (simp add: runPipeline_filter pipelineOrder_def runStage_def split: sum.splits)
  ultimately show ?thesis using first out(1) by simp
qed

lemma list_of_two: "length xs = 2 \<Longrightarrow> xs = [xs ! 0, xs ! 1]"
proof -
  assume l: "length xs = 2"
  then obtain a ys where xs: "xs = a # ys" by (cases xs) auto
  then obtain b where "ys = [b]" using l by (cases ys) auto
  then show ?thesis using xs by simp
qed

text \<open>A bright and a dark pixel with the threshold 128 of the initial settings.\<close>

theorem dither_flat_threshold_bw_witness:
  "ditherAlgo (defaultSettings\<lparr>ditherAlgo := ''threshold''\<rparr>) = ''threshold''
   \<and> ditherType (defaultSettings\<lparr>ditherAlgo := ''threshold''\<rparr>) = ''bw''
   \<and> length [\<lparr>red = 200, green = 200, blue = 200, alpha = 255\<rparr>,
              \<lparr>red = 10, green = 10, blue = 10, alpha = 7\<rparr>] = 2 * 1
   \<and> ditherStage (defaultSettings\<lparr>ditherAlgo := ''threshold''\<rparr>) 2 1
        [\<lparr>red = 200, green = 200, blue = 200, alpha = 255\<rparr>,
         \<lparr>red = 10, green = 10, blue = 10, alpha = 7\<rparr>]
       = Inr [\<lparr>red = 255, green = 255, blue = 255, alpha = 255\<rparr>,
              \<lparr>red = 0, green = 0, blue = 0, alpha = 255\<rparr>]"
proof -
  let ?s = "defaultSettings\<lparr>ditherAlgo := ''threshold''\<rparr>"
  let ?data = "[\<lparr>red = 200, green = 200, blue = 200, alpha = 255\<rparr>,
                \<lparr>red = 10, green = 10, blue = 10, alpha = 7\<rparr>] :: rgba list"
  have h: "ditherAlgo ?s = ''threshold''" "ditherType ?s = ''bw''" "length ?data = 2 * 1"
    by (simp_all add: defaultSettings_def)
  obtain out where out: "ditherStage ?s 2 1 ?data = Inr out" "length out = 2 * 1"
    and px: "\<forall>x y. x < 2 \<and> y < 1 \<longrightarrow> pixelAt 2 out x y =
               (if lum (pixelAt 2 ?data x y) > real_of_int (ditherThreshold ?s)
                then \<lparr>red = 255, green = 255, blue = 255, alpha = 255\<rparr>
                else \<lparr>red = 0, green = 0, blue = 0, alpha = 255\<rparr>)"
    using dither_flat_threshold_bw[OF h, of plainCanvas "\<lambda>i. 0" 0] by blast
  have p0: "out ! 0 = \<lparr>red = 255, green = 255, blue = 255, alpha = 255\<rparr>"
    using px[rule_format, of 0 0]
    by (simp add: pixelAt_def lum_def getLuminance_def num_def defaultSettings_def)
  have p1: "out ! 1 = \<lparr>red = 0, green = 0, blue = 0, alpha = 255\<rparr>"
    using px[rule_format, of 1 0]
    by (simp add: pixelAt_def lum_def getLuminance_def num_def defaultSettings_def)
  have "out = [out ! 0, out ! 1]"
    using out(2) by (intro list_of_two) simp
  then have "out = [\<lparr>red = 255, green = 255, blue = 255, alpha = 255\<rparr>,
                    \<lparr>red = 0, green = 0, blue = 0, alpha = 255\<rparr>]"
    using p0 p1 by simp
  then show ?thesis using h out(1) by simp
qed

section \<open>The ordered dither\<close>

lemma num_bounds: "0 \<le> num v" "num v \<le> 255"
proof -
  show "0 \<le> num v" unfolding num_def by (rule of_nat_0_le_iff)
  have "unat v < 2 ^ 8" using unsigned_less[of v] by simp
  then have "unat v \<le> 255" by simp
  then have "real (unat v) \<le> real 255" by (rule of_nat_mono)
  then show "num v \<le> 255" unfolding num_def by simp
qed

lemma lum_bounds: "0 \<le> lum p" "lum p \<le> 255"
  using num_bounds[of "red p"] num_bounds[of "green p"] num_bounds[of "blue p"]
  by (simp_all add: lum_def getLuminance_def)

lemma bayerLevel_range:
  "0 \<le> bayerLevel (lum p)" "bayerLevel (lum p) \<le> 17"
  "bayerLevel (lum p) = 17 \<longleftrightarrow> lum p = 255"
proof -
  have b: "0 \<le> lum p / 255 * 17" "lum p / 255 * 17 \<le> 17"
    using lum_bounds[of p] by simp_all
  show "0 \<le> bayerLevel (lum p)" unfolding bayerLevel_def using b(1) by simp
  show "bayerLevel (lum p) \<le> 17" unfolding bayerLevel_def using b(2) by (simp add: floor_le_iff)
  show "bayerLevel (lum p) = 17 \<longleftrightarrow> lum p = 255"
  proof
    assume "bayerLevel (lum p) = 17"
    then have "17 \<le> lum p / 255 * 17" unfolding bayerLevel_def by linarith
    then show "lum p = 255" using lum_bounds[of p] by simp
  next
    assume "lum p = 255"
    then show "bayerLevel (lum p) = 17" by (simp add: bayerLevel_def)
  qed
qed

lemma ditherStage_static_bw:
  assumes bw: "ditherType s = ''bw''"
    and dec: "\<And>x y gb. ditherDecide s W H (real_of_int (ditherThreshold s)) x y gb
                 = (D x y (gb ! (y * W + x)), gb)"
  shows "ditherStage s W H data =
     Inr (fold (\<lambda>y. fold (\<lambda>x d. d[y * W + x :=
             (\<lambda>x y old. bwOf (D x y (map (\<lambda>i. lum (data ! i)) [0..<W * H] ! (y * W + x))))
               x y (d ! (y * W + x))]) [0..<W]) [0..<H] data)"
proof -
  let ?gb = "map (\<lambda>i. lum (data ! i)) [0..<W * H]"
  let ?t = "real_of_int (ditherThreshold s)"
  let ?F = "\<lambda>y gb x d. d[y * W + x := bwOf (D x y (gb ! (y * W + x)))]"
  have body: "ditherBody s W H dark light ?t y x st = Inr (fst st, ?F y (fst st) x (snd st))"
    for dark light y x st
    using bw by (simp add: ditherBody_def dec ditherColor_def bwOf_def Let_def)
  have inner: "forEachE [0..<W] (ditherBody s W H dark light ?t y) st
                = Inr (fst st, fold (?F y (fst st)) [0..<W] (snd st))" for dark light y st
  proof -
    have "forEachE [0..<W] (ditherBody s W H dark light ?t y) st
            = Inr (fold (\<lambda>x st. (fst st, ?F y (fst st) x (snd st))) [0..<W] st)"
      by (rule forEachE_total) (rule body)
    also have "fold (\<lambda>x st. (fst st, ?F y (fst st) x (snd st))) [0..<W] st
                 = (fst st, fold (?F y (fst st)) [0..<W] (snd st))"
      using fold_keep_fst[of "?F y" "[0..<W]" "fst st" "snd st"] by simp
    finally show ?thesis .
  qed
  have outer: "forEachE [0..<H] (\<lambda>y. forEachE [0..<W] (ditherBody s W H dark light ?t y)) (gb, d)
                = Inr (gb, fold (\<lambda>y. fold (?F y gb) [0..<W]) [0..<H] d)" for dark light gb d
  proof -
    have "forEachE [0..<H] (\<lambda>y. forEachE [0..<W] (ditherBody s W H dark light ?t y)) (gb, d)
            = Inr (fold (\<lambda>y st. (fst st, (\<lambda>gb y. fold (?F y gb) [0..<W]) (fst st) y (snd st))) [0..<H] (gb, d))"
      by (rule forEachE_total) (simp add: inner)
    also have "fold (\<lambda>y st. (fst st, (\<lambda>gb y. fold (?F y gb) [0..<W]) (fst st) y (snd st))) [0..<H] (gb, d)
                 = (gb, fold ((\<lambda>gb y. fold (?F y gb) [0..<W]) gb) [0..<H] d)"
      by (rule fold_keep_fst)
    finally show ?thesis by simp
  qed
  show ?thesis
    unfolding ditherStage_def Let_def outer by simp
qed

lemma ditherStage_static_bw_pixels:
  assumes bw: "ditherType s = ''bw''"
    and dec: "\<And>x y gb. ditherDecide s W H (real_of_int (ditherThreshold s)) x y gb
                 = (D x y (gb ! (y * W + x)), gb)"
    and len: "length data = W * H"
  shows "\<exists>out. ditherStage s W H data = Inr out \<and> length out = W * H
           \<and> (\<forall>x y. x < W \<and> y < H \<longrightarrow>
                 pixelAt W out x y = bwOf (D x y (lum (pixelAt W data x y))))"
proof -
  let ?g = "\<lambda>x y (old::rgba). bwOf (D x y (map (\<lambda>i. lum (data ! i)) [0..<W * H] ! (y * W + x)))"
  let ?out = "fold (\<lambda>y. fold (\<lambda>x d. d[y * W + x := ?g x y (d ! (y * W + x))]) [0..<W]) [0..<H] data"
  have st: "ditherStage s W H data = Inr ?out"
    by (rule ditherStage_static_bw[OF bw dec])
  have l: "length ?out = W * H"
    using fold_grid_length[of W ?g "[0..<H]" data] len by simp
  have px: "pixelAt W ?out x y = bwOf (D x y (lum (pixelAt W data x y)))"
    if "x < W" "y < H" for x y
  proof -
    have "y * W + x < W * H" using that by (rule index_bound)
    then have gb: "map (\<lambda>i. lum (data ! i)) [0..<W * H] ! (y * W + x) = lum (data ! (y * W + x))"
      by simp
    have "?out ! (y * W + x) = ?g x y (data ! (y * W + x))"
      using fold_grid_nth[of data W H x y ?g] len that by simp
    then show ?thesis unfolding pixelAt_def gb by simp
  qed
  show ?thesis using st l px by blast
qed

text \<open>
  A white pixel has luminance 255 and the level \<open>\<lfloor>255 / 255 * 17\<rfloor> = 17\<close>: the levels are
  not confined to 0-16.
\<close>

theorem dither_bayer_level_counterexample:
  "bayerLevel (lum \<lparr>red = 255, green = 255, blue = 255, alpha = 255\<rparr>) = 17
   \<and> \<not> bayerLevel (lum \<lparr>red = 255, green = 255, blue = 255, alpha = 255\<rparr>) \<le> 16"
  by (simp add: bayerLevel_def lum_def getLuminance_def num_def)

text \<open>
  Claim C7, amended. With the algorithm \<^verbatim>\<open>bayer\<close> the luminance \<open>L\<close> of a pixel is quantised
  to \<open>\<lfloor>L / 255 * 17\<rfloor>\<close>, which lies in 0-17 (17 exactly at luminance 255), the pixel is lit
  if and only if this level strictly exceeds the entry of the Bayer matrix at row
  \<open>y mod 4\<close>, column \<open>x mod 4\<close>, and the luminance buffer is left as it is. In the palette
  mode \<^verbatim>\<open>bw\<close> the output pixel is white when lit and black otherwise.
\<close>

theorem dither_bayer_lit_iff:
  assumes "ditherAlgo s = ''bayer''"
  shows "ditherDecide s currentW currentH threshold x y grayBuffer
           = (bayerLevel (grayBuffer ! (y * currentW + x)) > bayerMatrix4x4 ! (y mod 4) ! (x mod 4),
              grayBuffer)
         \<and> bayerLevel gray = \<lfloor>gray / 255 * 17\<rfloor>
         \<and> 0 \<le> bayerLevel (lum p) \<and> bayerLevel (lum p) \<le> 17
         \<and> (bayerLevel (lum p) = 17 \<longleftrightarrow> lum p = 255)
         \<and> (ditherType s = ''bw'' \<and> length data = currentW * currentH \<longrightarrow>
              (\<exists>out. ditherStage s currentW currentH data = Inr out
                 \<and> length out = currentW * currentH
                 \<and> (\<forall>x y. x < currentW \<and> y < currentH \<longrightarrow>
                       pixelAt currentW out x y =
                         bwOf (bayerLevel (lum (pixelAt currentW data x y))
                                 > bayerMatrix4x4 ! (y mod 4) ! (x mod 4)))))"
proof -
  have dec: "ditherDecide s currentW currentH t x y gb
           = (bayerLevel (gb ! (y * currentW + x)) > bayerMatrix4x4 ! (y mod 4) ! (x mod 4), gb)"
    for t x y gb
    using assms by (simp add: ditherDecide_def Let_def)
  have stage: "\<exists>out. ditherStage s currentW currentH data = Inr out
                 \<and> length out = currentW * currentH
                 \<and> (\<forall>x y. x < currentW \<and> y < currentH \<longrightarrow>
                       pixelAt currentW out x y =
                         bwOf (bayerLevel (lum (pixelAt currentW data x y))
                                 > bayerMatrix4x4 ! (y mod 4) ! (x mod 4)))"
    if "ditherType s = ''bw''" "length data = currentW * currentH"
    using ditherStage_static_bw_pixels[of s currentW currentH
        "\<lambda>x y g. bayerLevel g > bayerMatrix4x4 ! (y mod 4) ! (x mod 4)" data, OF that(1) dec that(2)]
    by simp
  show ?thesis
    using dec stage bayerLevel_range[of p] by (simp add: bayerLevel_def)
qed

text \<open>
  Luminance 128 has level 8, above the matrix entry 0 at column 0; luminance 100 has
  level 6, not above the entry 8 at column 1.
\<close>

theorem dither_bayer_lit_iff_witness:
  "ditherAlgo (defaultSettings\<lparr>ditherAlgo := ''bayer''\<rparr>) = ''bayer''
   \<and> ditherType (defaultSettings\<lparr>ditherAlgo := ''bayer''\<rparr>) = ''bw''
   \<and> length [\<lparr>red = 128, green = 128, blue = 128, alpha = 255\<rparr>,
              \<lparr>red = 100, green = 100, blue = 100, alpha = 255\<rparr>] = 2 * 1
   \<and> ditherDecide (defaultSettings\<lparr>ditherAlgo := ''bayer''\<rparr>) 2 1 128 1 0 [128, 100]
       = (False, [128, 100])
   \<and> ditherStage (defaultSettings\<lparr>ditherAlgo := ''bayer''\<rparr>) 2 1
        [\<lparr>red = 128, green = 128, blue = 128, alpha = 255\<rparr>,
         \<lparr>red = 100, green = 100, blue = 100, alpha = 255\<rparr>]
       = Inr [\<lparr>red = 255, green = 255, blue = 255, alpha = 255\<rparr>,
              \<lparr>red = 0, green = 0, blue = 0, alpha = 255\<rparr>]"
proof -
  let ?s = "defaultSettings\<lparr>ditherAlgo := ''bayer''\<rparr>"
  let ?data = "[\<lparr>red = 128, green = 128, blue = 128, alpha = 255\<rparr>,
                \<lparr>red = 100, green = 100, blue = 100, alpha = 255\<rparr>] :: rgba list"
  have h: "ditherAlgo ?s = ''bayer''" "ditherType ?s = ''bw''" "length ?data = 2 * 1"
    by (simp_all add: defaultSettings_def)
  note inst = dither_bayer_lit_iff[OF h(1), of 2 1 128 1 0 "[128, 100]" 0
      "\<lparr>red = 0, green = 0, blue = 0, alpha = 0\<rparr>" ?data]
  have dec: "ditherDecide ?s 2 1 128 1 0 [128, 100] = (False, [128, 100])"
    using inst by (simp add: bayerLevel_def bayerMatrix4x4_def)
  obtain out where out: "ditherStage ?s 2 1 ?data = Inr out" "length out = 2 * 1"
    and px: "\<forall>x y. x < 2 \<and> y < 1 \<longrightarrow> pixelAt 2 out x y =
               bwOf (bayerLevel (lum (pixelAt 2 ?data x y)) > bayerMatrix4x4 ! (y mod 4) ! (x mod 4))"
    using inst h(2,3) by blast
  have p0: "out ! 0 = \<lparr>red = 255, green = 255, blue = 255, alpha = 255\<rparr>"
    using px[rule_format, of 0 0]
    by (simp add: pixelAt_def lum_def getLuminance_def num_def bayerLevel_def bayerMatrix4x4_def
        bwOf_def)
  have p1: "out ! 1 = \<lparr>red = 0, green = 0, blue = 0, alpha = 255\<rparr>"
    using px[rule_format, of 1 0]
    by (simp add: pixelAt_def lum_def getLuminance_def num_def bayerLevel_def bayerMatrix4x4_def
        bwOf_def)
  have "out = [out ! 0, out ! 1]"
    using out(2) by (intro list_of_two) simp
  then have "out = [\<lparr>red = 255, green = 255, blue = 255, alpha = 255\<rparr>,
                    \<lparr>red = 0, green = 0, blue = 0, alpha = 255\<rparr>]"
    using p0 p1 by simp
  then show ?thesis using h dec out(1) by simp
qed

section \<open>Tone adjustment\<close>












section \<open>The CRT overlay\<close>







lemma crtStage_length: "length (crtStage s W H data) = length data"
  unfolding crtStage_def
  using fold_grid_length[of W "\<lambda>x y. crtPixel (crtMult s W H x y)" "[0..<H]" data]
  by simp











section \<open>Colours that do not parse\<close>

















section \<open>Error diffusion\<close>

lemma length_addAt [simp]: "length (addAt g j v) = length g"
  by (simp add: addAt_def)



















section \<open>Pixel sort: runs, stability and the alpha plane\<close>

lemma findEnd_le_n: "stop \<le> n \<Longrightarrow> findEnd thresh n pixels stop \<le> n"
proof (induction thresh n pixels stop rule: findEnd.induct)
  case (1 thresh n pixels stop)
  show ?case
  proof (cases "stop < n \<and> lum (pixels ! stop) > thresh")
    case True
    then have "findEnd thresh n pixels (stop + 1) \<le> n" using 1 by simp
    then show ?thesis using True findEnd_step[where stop = stop and n = n and pixels = pixels and thresh = thresh] by simp
  next
    case False
    then show ?thesis using 1(2) findEnd_done[where stop = stop and n = n and pixels = pixels and thresh = thresh] by simp
  qed
qed


lemma findEnd_le:
  "stop \<le> m \<Longrightarrow> m \<ge> n \<or> \<not> lum (pixels ! m) > thresh \<Longrightarrow> findEnd thresh n pixels stop \<le> m"
proof (induction thresh n pixels stop rule: findEnd.induct)
  case (1 thresh n pixels stop)
  show ?case
  proof (cases "stop < n \<and> lum (pixels ! stop) > thresh")
    case True
    then have f: "findEnd thresh n pixels stop = findEnd thresh n pixels (stop + 1)"
      using findEnd_step by simp
    have "stop \<noteq> m" using True 1(3) by auto
    then have "stop + 1 \<le> m" using 1(2) by simp
    then show ?thesis using 1(1)[OF True] 1(3) f by simp
  next
    case False
    then have "findEnd thresh n pixels stop = stop" by (rule findEnd_done)
    then show ?thesis using 1(2) by simp
  qed
qed

lemma findEnd_stops:
  "findEnd thresh n pixels stop \<ge> n \<or> \<not> lum (pixels ! findEnd thresh n pixels stop) > thresh"
proof (induction thresh n pixels stop rule: findEnd.induct)
  case (1 thresh n pixels stop)
  show ?case
  proof (cases "stop < n \<and> lum (pixels ! stop) > thresh")
    case True
    then have f: "findEnd thresh n pixels stop = findEnd thresh n pixels (stop + 1)"
      using findEnd_step by simp
    show ?thesis unfolding f using 1[OF True] .
  next
    case False
    then have "findEnd thresh n pixels stop = stop" by (rule findEnd_done)
    then show ?thesis using False by auto
  qed
qed

lemma findEnd_eq:
  assumes "stop \<le> e" "e \<le> n"
    and "\<And>j. stop \<le> j \<Longrightarrow> j < e \<Longrightarrow> lum (pixels ! j) > thresh"
    and "e = n \<or> \<not> lum (pixels ! e) > thresh"
  shows "findEnd thresh n pixels stop = e"
proof (rule antisym)
  show "findEnd thresh n pixels stop \<le> e"
    using assms(1,2,4) by (intro findEnd_le) auto
next
  show "e \<le> findEnd thresh n pixels stop"
  proof (rule ccontr)
    assume "\<not> e \<le> findEnd thresh n pixels stop"
    then have lt: "findEnd thresh n pixels stop < e" by simp
    let ?f = "findEnd thresh n pixels stop"
    have ge: "stop \<le> ?f" by (rule findEnd_ge)
    have "?f < n" using lt assms(2) by simp
    moreover have "lum (pixels ! ?f) > thresh" using assms(3)[OF ge lt] .
    ultimately show False using findEnd_stops[where stop = stop and n = n and pixels = pixels and thresh = thresh] by simp
  qed
qed

lemma sortRuns_done: "\<not> start < n \<Longrightarrow> sortRuns thresh n pixels start = pixels"
  by (subst sortRuns.simps) simp

lemma sortRuns_skip:
  "start < n \<Longrightarrow> \<not> lum (pixels ! start) > thresh \<Longrightarrow>
     sortRuns thresh n pixels start = sortRuns thresh n pixels (start + 1)"
  by (subst sortRuns.simps) simp

lemma sortRuns_sort:
  "start < n \<Longrightarrow> lum (pixels ! start) > thresh \<Longrightarrow>
     sortRuns thresh n pixels start =
       sortRuns thresh n
         (writeSpan start (sortRow (slice pixels start (findEnd thresh n pixels (start + 1)))) pixels)
         (findEnd thresh n pixels (start + 1))"
  by (subst sortRuns.simps) (simp add: Let_def)

lemma writeSpan_length [simp]: "length (writeSpan start sp pixels) = length pixels"
  unfolding writeSpan_def
  using fold_row_length[where k = start and g = "\<lambda>k _. sp ! k" and xs = "[0..<length sp]"
      and d = pixels]
  by simp

lemma writeSpan_nth:
  assumes "j < length pixels"
  shows "writeSpan start sp pixels ! j =
           (if start \<le> j \<and> j - start < length sp then sp ! (j - start) else pixels ! j)"
  unfolding writeSpan_def
  using fold_row_update[where k = start and g = "\<lambda>k _. sp ! k" and xs = "[0..<length sp]"
      and d = pixels and j = j] assms
  by simp

lemma slice_length: "stop \<le> length xs \<Longrightarrow> length (slice xs start stop) = stop - start"
  by (simp add: slice_def)

lemma slice_nth: "stop \<le> length xs \<Longrightarrow> k < stop - start \<Longrightarrow> slice xs start stop ! k = xs ! (start + k)"
  by (simp add: slice_def)

lemma sortRow_length [simp]: "length (sortRow xs) = length xs"
  by (simp add: sortRow_def)

lemma sortRuns_prefix:
  "length pixels = n \<Longrightarrow>
     length (sortRuns thresh n pixels start) = n
     \<and> (\<forall>j. j < start \<longrightarrow> sortRuns thresh n pixels start ! j = pixels ! j)"
proof (induction thresh n pixels start rule: sortRuns.induct)
  case (1 thresh n pixels start)
  show ?case
  proof (cases "start < n")
    case False
    then show ?thesis using 1(3) by (simp add: sortRuns_done)
  next
    case True
    show ?thesis
    proof (cases "lum (pixels ! start) > thresh")
      case False
      have "length (sortRuns thresh n pixels (start + 1)) = n
            \<and> (\<forall>j. j < start + 1 \<longrightarrow> sortRuns thresh n pixels (start + 1) ! j = pixels ! j)"
        using 1(2)[OF True False 1(3)] .
      then show ?thesis unfolding sortRuns_skip[OF True False] by simp
    next
      case lit: True
      let ?stop = "findEnd thresh n pixels (start + 1)"
      let ?span = "sortRow (slice pixels start ?stop)"
      let ?ps = "writeSpan start ?span pixels"
      have len: "length ?ps = n" using 1(3) by simp
      have ih: "length (sortRuns thresh n ?ps ?stop) = n
            \<and> (\<forall>j. j < ?stop \<longrightarrow> sortRuns thresh n ?ps ?stop ! j = ?ps ! j)"
        using 1(1)[OF True lit refl refl refl len] .
      have lt: "start < ?stop" using findEnd_ge[of "start + 1" thresh n pixels] by simp
      have "sortRuns thresh n ?ps ?stop ! j = pixels ! j" if "j < start" for j
      proof -
        have "sortRuns thresh n ?ps ?stop ! j = ?ps ! j" using ih that lt by simp
        also have "\<dots> = pixels ! j" using that True 1(3) by (simp add: writeSpan_nth)
        finally show ?thesis .
      qed
      then show ?thesis unfolding sortRuns_sort[OF True lit] using ih by simp
    qed
  qed
qed

lemma sortRuns_length: "length pixels = n \<Longrightarrow> length (sortRuns thresh n pixels start) = n"
  using sortRuns_prefix by blast

lemma sortRuns_before:
  "length pixels = n \<Longrightarrow> j < start \<Longrightarrow> sortRuns thresh n pixels start ! j = pixels ! j"
  using sortRuns_prefix by blast

text \<open>The span written back covers exactly the run found.\<close>

lemma span_length:
  assumes "length pixels = n" "start < n"
  shows "length (sortRow (slice pixels start (findEnd thresh n pixels (start + 1))))
           = findEnd thresh n pixels (start + 1) - start"
proof -
  have "findEnd thresh n pixels (start + 1) \<le> n" using assms(2) by (intro findEnd_le_n) simp
  then show ?thesis using assms(1) by (simp add: slice_length)
qed

lemma writeSpan_outside:
  assumes "length pixels = n" "start < n" "j < n"
    and "j < start \<or> findEnd thresh n pixels (start + 1) \<le> j"
  shows "writeSpan start (sortRow (slice pixels start (findEnd thresh n pixels (start + 1)))) pixels ! j
           = pixels ! j"
proof -
  let ?stop = "findEnd thresh n pixels (start + 1)"
  have l: "length (sortRow (slice pixels start ?stop)) = ?stop - start"
    using assms(1,2) by (rule span_length)
  have j: "j < length pixels" using assms(1,3) by simp
  have "\<not> (start \<le> j \<and> j - start < ?stop - start)" using assms(4) by auto
  then show ?thesis unfolding writeSpan_nth[OF j] l by (rule if_not_P)
qed


lemma sortRuns_run:
  "length pixels = n \<Longrightarrow> start \<le> s \<Longrightarrow> s < e \<Longrightarrow> e \<le> n \<Longrightarrow>
   (\<forall>j. s \<le> j \<and> j < e \<longrightarrow> lum (pixels ! j) > thresh) \<Longrightarrow>
   (s = 0 \<or> \<not> lum (pixels ! (s - 1)) > thresh) \<Longrightarrow>
   (e = n \<or> \<not> lum (pixels ! e) > thresh) \<Longrightarrow>
   slice (sortRuns thresh n pixels start) s e = sortRow (slice pixels s e)"
proof (induction thresh n pixels start rule: sortRuns.induct)
  case (1 thresh n pixels start)
  have start_n: "start < n" using 1(4,5,6) by simp
  show ?case
  proof (cases "lum (pixels ! start) > thresh")
    case False
    then have "start \<noteq> s" using 1(5,7) by auto
    then have le: "start + 1 \<le> s" using 1(4) by simp
    show ?thesis unfolding sortRuns_skip[OF start_n False]
      using 1(2)[OF start_n False 1(3) le 1(5,6,7,8,9)] .
  next
    case lit: True
    let ?stop = "findEnd thresh n pixels (start + 1)"
    let ?span = "sortRow (slice pixels start ?stop)"
    let ?ps = "writeSpan start ?span pixels"
    have len: "length ?ps = n" using 1(3) by simp
    have unfold: "sortRuns thresh n pixels start = sortRuns thresh n ?ps ?stop"
      by (rule sortRuns_sort[OF start_n lit])
    show ?thesis
    proof (cases "start = s")
      case True
      have stop: "?stop = e"
      proof (rule findEnd_eq)
        show "start + 1 \<le> e" using True 1(5) by simp
        show "e \<le> n" by (rule 1(6))
        show "\<And>j. start + 1 \<le> j \<Longrightarrow> j < e \<Longrightarrow> lum (pixels ! j) > thresh"
          using 1(7) True by simp
        show "e = n \<or> \<not> lum (pixels ! e) > thresh" by (rule 1(9))
      qed
      have sp: "length ?span = e - s" using span_length[OF 1(3) start_n, of thresh] stop True by simp
      have res: "length (sortRuns thresh n ?ps ?stop) = n"
        using len by (rule sortRuns_length)
      show ?thesis
      proof (rule nth_equalityI)
        show "length (slice (sortRuns thresh n pixels start) s e) = length (sortRow (slice pixels s e))"
          unfolding unfold using res 1(3,6) by (simp add: slice_length)
      next
        fix k assume "k < length (slice (sortRuns thresh n pixels start) s e)"
        then have k: "k < e - s" unfolding unfold using res 1(6) by (simp add: slice_length)
        have "slice (sortRuns thresh n pixels start) s e ! k = sortRuns thresh n ?ps ?stop ! (s + k)"
          unfolding unfold using res 1(6) k by (simp add: slice_nth)
        also have "\<dots> = ?ps ! (s + k)"
          using sortRuns_before[OF len, of "s + k" ?stop thresh] k stop by simp
        also have "\<dots> = ?span ! k"
          using k sp True 1(3,6) by (simp add: writeSpan_nth)
        also have "\<dots> = sortRow (slice pixels s e) ! k" using stop True by simp
        finally show "slice (sortRuns thresh n pixels start) s e ! k = sortRow (slice pixels s e) ! k" .
      qed
    next
      case False
      then have lt: "start < s" using 1(4) by simp
      then have b: "\<not> lum (pixels ! (s - 1)) > thresh" using 1(8) by simp
      then have "s - 1 \<noteq> start" using lit by auto
      then have "start + 1 \<le> s - 1" using lt by simp
      then have "?stop \<le> s - 1" using b by (intro findEnd_le) simp_all
      then have stop: "?stop \<le> s" "?stop \<le> s - 1" by simp_all
      have same: "?ps ! j = pixels ! j" if "?stop \<le> j" "j < n" for j
        using writeSpan_outside[OF 1(3) start_n that(2)] that(1) by simp
      have run: "\<forall>j. s \<le> j \<and> j < e \<longrightarrow> lum (?ps ! j) > thresh"
        using 1(7) same stop(1) 1(6) by simp
      have left: "s = 0 \<or> \<not> lum (?ps ! (s - 1)) > thresh"
        using b same[of "s - 1"] stop(2) 1(5,6) by simp
      have right: "e = n \<or> \<not> lum (?ps ! e) > thresh"
        using 1(9) same[of e] stop(1) 1(5,6) by auto
      have "slice (sortRuns thresh n ?ps ?stop) s e = sortRow (slice ?ps s e)"
        using 1(1)[OF start_n lit refl refl refl len stop(1) 1(5,6) run left right] .
      moreover have "slice ?ps s e = slice pixels s e"
      proof (rule nth_equalityI)
        show "length (slice ?ps s e) = length (slice pixels s e)"
          using len 1(3,6) by (simp add: slice_length)
      next
        fix k assume "k < length (slice ?ps s e)"
        then have k: "k < e - s" using len 1(6) by (simp add: slice_length)
        then show "slice ?ps s e ! k = slice pixels s e ! k"
          using same[of "s + k"] stop(1) len 1(3,6) by (simp add: slice_nth)
      qed
      ultimately show ?thesis unfolding unfold by simp
    qed
  qed
qed

lemma sortStage_horizontal:
  "sortDirection s = ''horizontal'' \<Longrightarrow>
     sortStage s W H data = fold (sortRowStep (real_of_int (sortThreshold s)) W) [0..<H] data"
proof -
  assume h: "sortDirection s = ''horizontal''"
  have "sortRowStep (real_of_int (sortThreshold s)) W =
          (\<lambda>y data. fold (\<lambda>x d. d[y * W + x := writeRgb (d ! (y * W + x))
                 (sortRuns (real_of_int (sortThreshold s)) W
                    (map (\<lambda>x. data ! (y * W + x)) [0..<W]) 0 ! x)]) [0..<W] data)"
    by (intro ext) (simp add: sortRowStep_def Let_def)
  then show ?thesis using h by (simp add: sortStage_def Let_def)
qed

lemma sortRowStep_length [simp]: "length (sortRowStep thresh W y d) = length d"
  unfolding sortRowStep_def Let_def
  using fold_row_length[where k = "y * W" and xs = "[0..<W]" and d = d
      and g = "\<lambda>x old. writeRgb old (sortRuns thresh W (map (\<lambda>x. d ! (y * W + x)) [0..<W]) 0 ! x)"]
  by simp

lemma sortRowStep_nth:
  assumes "x < W" "y * W + x < length d"
  shows "sortRowStep thresh W y' d ! (y * W + x) =
           (if y = y'
            then writeRgb (d ! (y * W + x))
                   (sortRuns thresh W (map (\<lambda>x. d ! (y * W + x)) [0..<W]) 0 ! x)
            else d ! (y * W + x))"
proof -
  let ?r = "sortRuns thresh W (map (\<lambda>x. d ! (y' * W + x)) [0..<W]) 0"
  have "fold (\<lambda>y. fold (\<lambda>x d. d[y * W + x := (\<lambda>x y old. writeRgb old (?r ! x)) x y (d ! (y * W + x))])
                    [0..<W]) [y'] d ! (y * W + x) =
          (if y \<in> set [y'] then (\<lambda>x y old. writeRgb old (?r ! x)) x y (d ! (y * W + x))
           else d ! (y * W + x))"
    by (rule fold_grid_update) (simp_all add: assms)
  then show ?thesis unfolding sortRowStep_def Let_def by auto
qed

lemma sortRows_nth:
  assumes "distinct ys" "length d = W * H" "x < W" "y < H"
  shows "fold (sortRowStep thresh W) ys d ! (y * W + x) =
           (if y \<in> set ys
            then writeRgb (d ! (y * W + x))
                   (sortRuns thresh W (map (\<lambda>x. d ! (y * W + x)) [0..<W]) 0 ! x)
            else d ! (y * W + x))"
  using assms(1,2)
proof (induction ys arbitrary: d)
  case Nil
  then show ?case by simp
next
  case (Cons y' ys)
  let ?d = "sortRowStep thresh W y' d"
  have len: "length ?d = W * H" using Cons.prems(2) by simp
  have bound: "y * W + x' < length d" if "x' < W" for x'
    using index_bound[OF that assms(4)] Cons.prems(2) by simp
  have ih: "fold (sortRowStep thresh W) ys ?d ! (y * W + x) =
           (if y \<in> set ys
            then writeRgb (?d ! (y * W + x))
                   (sortRuns thresh W (map (\<lambda>x. ?d ! (y * W + x)) [0..<W]) 0 ! x)
            else ?d ! (y * W + x))"
    using Cons.IH[OF _ len] Cons.prems(1) by simp
  show ?case
  proof (cases "y = y'")
    case True
    then have "y \<notin> set ys" using Cons.prems(1) by simp
    then show ?thesis using ih True sortRowStep_nth[OF assms(3) bound[OF assms(3)], of thresh y']
      by simp
  next
    case False
    have row: "map (\<lambda>x. ?d ! (y * W + x)) [0..<W] = map (\<lambda>x. d ! (y * W + x)) [0..<W]"
      by (rule map_cong) (simp_all add: sortRowStep_nth bound False)
    have px: "?d ! (y * W + x) = d ! (y * W + x)"
      using sortRowStep_nth[OF assms(3) bound[OF assms(3)], of thresh y'] False by simp
    show ?thesis using ih False unfolding row px by simp
  qed
qed

lemma sortStage_horizontal_nth:
  assumes "sortDirection s = ''horizontal''" "length data = W * H" "x < W" "y < H"
  shows "pixelAt W (sortStage s W H data) x y =
           writeRgb (pixelAt W data x y)
             (sortRuns (real_of_int (sortThreshold s)) W (map (\<lambda>x. pixelAt W data x y) [0..<W]) 0 ! x)"
  unfolding sortStage_horizontal[OF assms(1)] pixelAt_def
  using sortRows_nth[of "[0..<H]" data W H x y "real_of_int (sortThreshold s)"] assms
  by simp


lemma writeRgb_simps [simp]:
  "rgbOf (writeRgb old px) = rgbOf px" "lum (writeRgb old px) = lum px"
  "alpha (writeRgb old px) = alpha old"
  by (simp_all add: writeRgb_def rgbOf_def lum_def)

lemma writeRgb_self [simp]: "writeRgb p p = p"
  by (simp add: writeRgb_def)




lemma sorted_run_slice:
  assumes "sortDirection s = ''horizontal''" "length data = W * H" "y < H"
    and "maximalRun (real_of_int (sortThreshold s)) (rowOf W data y) b e"
  shows "slice (rowOf W (sortStage s W H data) y) b e
           = map2 writeRgb (slice (rowOf W data y) b e) (sortRow (slice (rowOf W data y) b e))"
proof -
  let ?t = "real_of_int (sortThreshold s)"
  let ?row = "rowOf W data y"
  let ?out = "rowOf W (sortStage s W H data) y"
  let ?sorted = "sortRuns ?t W ?row 0"
  have lrow: "length ?row = W" by (simp add: rowOf_def)
  have lout: "length ?out = W" by (simp add: rowOf_def)
  have lsorted: "length ?sorted = W" using lrow by (rule sortRuns_length)
  have m: "b < e" "e \<le> W" "\<forall>j. b \<le> j \<and> j < e \<longrightarrow> lum (?row ! j) > ?t"
    "b = 0 \<or> \<not> lum (?row ! (b - 1)) > ?t" "e = W \<or> \<not> lum (?row ! e) > ?t"
    using assms(4) lrow by (simp_all add: maximalRun_def list_all_iff)
  have run: "slice ?sorted b e = sortRow (slice ?row b e)"
    using sortRuns_run[OF lrow _ m(1,2,3,4,5)] by simp
  have out: "?out ! x = writeRgb (?row ! x) (?sorted ! x)" if "x < W" for x
    using sortStage_horizontal_nth[OF assms(1,2) that assms(3)] that
    by (simp add: rowOf_def)
  show ?thesis
  proof (rule nth_equalityI)
    show "length (slice ?out b e) = length (map2 writeRgb (slice ?row b e) (sortRow (slice ?row b e)))"
      using lout lrow m(2) by (simp add: slice_length)
  next
    fix k assume "k < length (slice ?out b e)"
    then have k: "k < e - b" using lout m(2) by (simp add: slice_length)
    then have kb: "b + k < W" using m(2) by simp
    have "slice ?out b e ! k = writeRgb (?row ! (b + k)) (?sorted ! (b + k))"
      using out[OF kb] k lout m(2) by (simp add: slice_nth)
    also have "?sorted ! (b + k) = slice ?sorted b e ! k"
      using k lsorted m(2) by (simp add: slice_nth)
    also have "?row ! (b + k) = slice ?row b e ! k"
      using k lrow m(2) by (simp add: slice_nth)
    finally show "slice ?out b e ! k = map2 writeRgb (slice ?row b e) (sortRow (slice ?row b e)) ! k"
      unfolding run using k lrow m(2) by (simp add: slice_length)
  qed
qed

lemma alpha_write: "map alpha (d[k := writeRgb (d ! k) w]) = map alpha d"
proof (cases "k < length d")
  case True
  then have "(map alpha d)[k := alpha (d ! k)] = map alpha d"
    by (metis list_update_id nth_map)
  then show ?thesis by (simp add: map_update)
next
  case False
  then have "d[k := writeRgb (d ! k) w] = d" by (intro list_update_beyond) simp
  then show ?thesis by simp
qed

lemma alpha_fold_write:
  "map alpha (fold (\<lambda>x d. d[idx x := writeRgb (d ! idx x) (v x)]) xs d) = map alpha d"
  by (induction xs arbitrary: d) (simp_all add: alpha_write)

lemma alpha_fold_steps:
  assumes "\<And>y d. map alpha (step y d) = map alpha d"
  shows "map alpha (fold step ys d) = map alpha d"
  by (induction ys arbitrary: d) (simp_all add: assms)

lemma sortStage_alpha: "map alpha (sortStage s W H data) = map alpha data"
proof (cases "sortDirection s = ''horizontal''")
  case True
  have "map alpha (fold (\<lambda>y data.
               fold (\<lambda>x d. d[y * W + x := writeRgb (d ! (y * W + x))
                 (sortRuns (real_of_int (sortThreshold s)) W
                    (map (\<lambda>x. data ! (y * W + x)) [0..<W]) 0 ! x)]) [0..<W] data) [0..<H] data)
          = map alpha data"
    by (rule alpha_fold_steps) (rule alpha_fold_write)
  then show ?thesis using True by (simp add: sortStage_def Let_def)
next
  case False
  have "map alpha (fold (\<lambda>x data.
               fold (\<lambda>y d. d[y * W + x := writeRgb (d ! (y * W + x))
                 (sortRuns (real_of_int (sortThreshold s)) H
                    (map (\<lambda>y. data ! (y * W + x)) [0..<H]) 0 ! y)]) [0..<H] data) [0..<W] data)
          = map alpha data"
    by (rule alpha_fold_steps) (rule alpha_fold_write)
  then show ?thesis using False by (simp add: sortStage_def Let_def)
qed

lemma sort_two_pixels:
  "sortStage defaultSettings 2 1
     [\<lparr>red = 200, green = 200, blue = 200, alpha = 10\<rparr>,
      \<lparr>red = 100, green = 100, blue = 100, alpha = 20\<rparr>]
   = [\<lparr>red = 100, green = 100, blue = 100, alpha = 10\<rparr>,
      \<lparr>red = 200, green = 200, blue = 200, alpha = 20\<rparr>]"
proof -
  let ?p = "\<lparr>red = 200, green = 200, blue = 200, alpha = 10\<rparr> :: rgba"
  let ?q = "\<lparr>red = 100, green = 100, blue = 100, alpha = 20\<rparr> :: rgba"
  let ?out = "sortStage defaultSettings 2 1 [?p, ?q]"
  have lp: "lum ?p = 200" and lq: "lum ?q = 100"
    by (simp_all add: lum_def getLuminance_def num_def)
  have row: "rowOf 2 [?p, ?q] 0 = [?p, ?q]"
    by (simp add: rowOf_def pixelAt_def upt_conv_Cons)
  have h: "sortDirection defaultSettings = ''horizontal''" "length [?p, ?q] = 2 * 1" "(0::nat) < 1"
    by (simp_all add: defaultSettings_def)
  have t: "real_of_int (sortThreshold defaultSettings) = 50" by (simp add: defaultSettings_def)
  have "maximalRun 50 [?p, ?q] 0 2"
    by (simp add: maximalRun_def lp lq upt_conv_Cons)
  then have "slice (rowOf 2 ?out 0) 0 2 = map2 writeRgb (slice [?p, ?q] 0 2) (sortRow (slice [?p, ?q] 0 2))"
    using sorted_run_slice[OF h, of 0 2] unfolding t row by simp
  moreover have "sortRow [?p, ?q] = [?q, ?p]" by (simp add: sortRow_def lp lq)
  ultimately have s: "slice (rowOf 2 ?out 0) 0 2 = [writeRgb ?p ?q, writeRgb ?q ?p]"
    by (simp add: slice_def)
  have len: "length ?out = 2"
    using arg_cong[OF sortStage_alpha[of defaultSettings 2 1 "[?p, ?q]"], of length] by simp
  have "rowOf 2 ?out 0 = [?out ! 0, ?out ! 1]"
    by (simp add: rowOf_def pixelAt_def upt_conv_Cons)
  also have "\<dots> = ?out" using list_of_two[OF len] by simp
  finally have "slice (rowOf 2 ?out 0) 0 2 = ?out" using len by (simp add: slice_def)
  then show ?thesis using s by (simp add: writeRgb_def)
qed




text \<open>
  Claim C10. In either direction, the pixel sort leaves the alpha value at every position of the
  buffer as it was, and keeps the size of the buffer: only the colour channels of a run are
  permuted. In the 2 x 1 image the colours of the two pixels are exchanged while the alpha values
  10 and 20 stay at positions 0 and 1, so a colour moved by the sort does not take its alpha value
  with it.
\<close>

theorem pixel_sort_keeps_alpha:
  "map alpha (sortStage s currentW currentH data) = map alpha data
   \<and> length (sortStage s currentW currentH data) = length data
   \<and> map rgbOf (sortStage defaultSettings 2 1
         [\<lparr>red = 200, green = 200, blue = 200, alpha = 10\<rparr>,
          \<lparr>red = 100, green = 100, blue = 100, alpha = 20\<rparr>])
       = [(100, 100, 100), (200, 200, 200)]
   \<and> map alpha (sortStage defaultSettings 2 1
         [\<lparr>red = 200, green = 200, blue = 200, alpha = 10\<rparr>,
          \<lparr>red = 100, green = 100, blue = 100, alpha = 20\<rparr>])
       = [10, 20]"
proof -
  have a: "map alpha (sortStage s currentW currentH data) = map alpha data"
    by (rule sortStage_alpha)
  have l: "length (sortStage s currentW currentH data) = length data"
    using arg_cong[OF a, of length] by simp
  show ?thesis using a l unfolding sort_two_pixels by (simp add: rgbOf_def)
qed

end
